(* ===== verification/Go_Prelude.thy ===== *)
theory Go_Prelude
  imports Main "HOL-Library.AList" "HOL-Library.Char_ord" "HOL-Library.List_Lexorder"
begin

text \<open>
  What every component of the development shares: the parts of Go's standard library that the
  bouncer calls on byte strings, Go maps as association lists, and the lemmas about both.

  A Go string is a sequence of bytes, here a \<^typ>\<open>string\<close> (a list of 8-bit characters), so
  \<^const>\<open>length\<close> is Go's \<open>len\<close> and the list order of \<open>List_Lexorder\<close> is Go's \<open><\<close>.
  The case and white space functions of package \<open>strings\<close> act here on ASCII: bytes from 128 up
  are left alone, as Go does for every string with no upper or lower case letter outside ASCII.

  A Go map is an association list with distinct keys (\<open>distinct (map fst m)\<close>): \<open>map_of m k\<close>
  is the read \<open>m[k]\<close>, \<open>map_put\<close> the write and \<open>map_del\<close> the built-in \<open>delete\<close>. A nil map
  and an empty map read the same and are both \<open>[]\<close>.
\<close>

section \<open>Collections of rewrite rules\<close>

named_theorems go_string_simps
named_theorems go_map_simps

section \<open>Bytes\<close>

abbreviation SP :: char where "SP \<equiv> CHR '' ''"
abbreviation CR :: char where "CR \<equiv> CHR 0x0D"
abbreviation LF :: char where "LF \<equiv> CHR 0x0A"
abbreviation TAB :: char where "TAB \<equiv> CHR 0x09"
abbreviation BACKSLASH :: char where "BACKSLASH \<equiv> CHR 0x5C"
abbreviation NUL :: char where "NUL \<equiv> CHR 0x00"

definition is_upper_byte :: "char \<Rightarrow> bool" where
  "is_upper_byte c \<longleftrightarrow> CHR ''A'' \<le> c \<and> c \<le> CHR ''Z''"

definition is_lower_byte :: "char \<Rightarrow> bool" where
  "is_lower_byte c \<longleftrightarrow> CHR ''a'' \<le> c \<and> c \<le> CHR ''z''"

definition lower_byte :: "char \<Rightarrow> char" where
  "lower_byte c = (if is_upper_byte c then char_of (of_char c + (32::nat)) else c)"

definition upper_byte :: "char \<Rightarrow> char" where
  "upper_byte c = (if is_lower_byte c then char_of (of_char c - (32::nat)) else c)"

definition is_space_byte :: "char \<Rightarrow> bool" where
  "is_space_byte c \<longleftrightarrow> c \<in> {SP, TAB, LF, CHR 0x0B, CHR 0x0C, CR}"

definition is_digit_byte :: "char \<Rightarrow> bool" where
  "is_digit_byte c \<longleftrightarrow> CHR ''0'' \<le> c \<and> c \<le> CHR ''9''"

definition to_lower :: "string \<Rightarrow> string" where
  "to_lower s = map lower_byte s"

definition to_upper :: "string \<Rightarrow> string" where
  "to_upper s = map upper_byte s"

definition equal_fold :: "string \<Rightarrow> string \<Rightarrow> bool" where
  "equal_fold a b \<longleftrightarrow> to_lower a = to_lower b"

lemma of_char_less_eq: "c \<le> d \<longleftrightarrow> (of_char c :: nat) \<le> of_char d"
  by (simp add: less_eq_char_def)

lemma of_char_char_of_small: "n < 256 \<Longrightarrow> of_char (char_of n) = (n :: nat)"
  by simp

lemma lower_byte_code: "(of_char (lower_byte c) :: nat) =
    (if 65 \<le> (of_char c :: nat) \<and> of_char c \<le> (90::nat) then of_char c + 32 else of_char c)"
  by (auto simp: lower_byte_def is_upper_byte_def of_char_less_eq)

lemma lower_byte_idem [simp]: "lower_byte (lower_byte c) = lower_byte c"
proof -
  have "(of_char (lower_byte (lower_byte c)) :: nat) = of_char (lower_byte c)"
    by (simp only: lower_byte_code [of "lower_byte c"]) (simp add: lower_byte_code)
  then show ?thesis by simp
qed

lemma to_lower_idem [simp]: "to_lower (to_lower s) = to_lower s"
  by (simp add: to_lower_def)

lemma length_to_lower [simp]: "length (to_lower s) = length s"
  by (simp add: to_lower_def)

lemma equal_fold_refl [simp]: "equal_fold a a"
  by (simp add: equal_fold_def)

section \<open>Package strings\<close>

text \<open>\<open>strings.IndexByte\<close>: the first position of a byte; \<^const>\<open>None\<close> is the result \<open>-1\<close>.\<close>

fun index_byte :: "string \<Rightarrow> char \<Rightarrow> nat option" where
  "index_byte [] c = None"
| "index_byte (x # xs) c = (if x = c then Some 0 else map_option Suc (index_byte xs c))"

text \<open>\<open>strings.TrimLeft(s, " ")\<close> and the general \<open>TrimLeft\<close>/\<open>TrimRight\<close> with a cut set.\<close>

definition trim_left :: "char list \<Rightarrow> string \<Rightarrow> string" where
  "trim_left cutset s = dropWhile (\<lambda>c. c \<in> set cutset) s"

definition trim_right :: "char list \<Rightarrow> string \<Rightarrow> string" where
  "trim_right cutset s = rev (dropWhile (\<lambda>c. c \<in> set cutset) (rev s))"

definition trim_space :: "string \<Rightarrow> string" where
  "trim_space s = rev (dropWhile is_space_byte (rev (dropWhile is_space_byte s)))"

text \<open>\<open>strings.Split(s, sep)\<close> with a one-byte separator: never an empty list.\<close>

fun split_byte :: "char \<Rightarrow> string \<Rightarrow> string list" where
  "split_byte sep [] = [[]]"
| "split_byte sep (x # xs) =
     (if x = sep then [] # split_byte sep xs
      else case split_byte sep xs of
             [] \<Rightarrow> [[x]]
           | p # ps \<Rightarrow> (x # p) # ps)"

text \<open>\<open>strings.Cut(s, sep)\<close> with a one-byte separator: before, after, found.\<close>

definition cut_byte :: "char \<Rightarrow> string \<Rightarrow> string \<times> string \<times> bool" where
  "cut_byte sep s =
     (case index_byte s sep of
        None \<Rightarrow> (s, [], False)
      | Some i \<Rightarrow> (take i s, drop (Suc i) s, True))"

text \<open>\<open>strings.Fields\<close>: the maximal runs of bytes that are not white space.\<close>

function Fields :: "string \<Rightarrow> string list" where
  "Fields s =
     (let t = dropWhile is_space_byte s in
      if t = [] then []
      else takeWhile (\<lambda>c. \<not> is_space_byte c) t # Fields (dropWhile (\<lambda>c. \<not> is_space_byte c) t))"
  by pat_completeness auto
termination
proof (relation "measure length")
  fix s t :: string
  assume t: "t = dropWhile is_space_byte s" and "t \<noteq> []"
  then obtain x xs where x: "t = x # xs" by (meson list.exhaust)
  then have "\<not> is_space_byte x" using t by (metis hd_dropWhile list.discI list.sel(1))
  then have "length (dropWhile (\<lambda>c. \<not> is_space_byte c) t) < length t"
    using x by (simp add: length_dropWhile_le le_imp_less_Suc)
  also have "length t \<le> length s" using t by (simp add: length_dropWhile_le)
  finally show "(dropWhile (\<lambda>c. \<not> is_space_byte c) t, s) \<in> measure length" by simp
qed simp

declare Fields.simps [simp del]

text \<open>\<open>strings.Join(parts, sep)\<close>.\<close>

fun join :: "string \<Rightarrow> string list \<Rightarrow> string" where
  "join sep [] = []"
| "join sep [p] = p"
| "join sep (p # q # ps) = p @ sep @ join sep (q # ps)"

definition has_prefix :: "string \<Rightarrow> string \<Rightarrow> bool" where
  "has_prefix s p \<longleftrightarrow> take (length p) s = p"

definition has_suffix :: "string \<Rightarrow> string \<Rightarrow> bool" where
  "has_suffix s p \<longleftrightarrow> length p \<le> length s \<and> drop (length s - length p) s = p"

definition trim_prefix :: "string \<Rightarrow> string \<Rightarrow> string" where
  "trim_prefix s p = (if has_prefix s p then drop (length p) s else s)"

definition trim_suffix :: "string \<Rightarrow> string \<Rightarrow> string" where
  "trim_suffix s p = (if has_suffix s p then take (length s - length p) s else s)"

text \<open>\<open>strings.Contains\<close> and \<open>strings.ContainsAny\<close>.\<close>

fun contains :: "string \<Rightarrow> string \<Rightarrow> bool" where
  "contains [] sub \<longleftrightarrow> sub = []"
| "contains (x # xs) sub \<longleftrightarrow> has_prefix (x # xs) sub \<or> contains xs sub"

definition contains_any :: "string \<Rightarrow> char list \<Rightarrow> bool" where
  "contains_any s chars \<longleftrightarrow> list_ex (\<lambda>c. c \<in> set chars) s"

subsection \<open>Laws of the string functions\<close>

lemma index_byte_None: "index_byte s c = None \<longleftrightarrow> c \<notin> set s"
  by (induction s) auto

lemma index_byte_Some:
  "index_byte s c = Some i \<longleftrightarrow> i < length s \<and> s ! i = c \<and> c \<notin> set (take i s)"
proof (induction s arbitrary: i)
  case Nil
  then show ?case by simp
next
  case (Cons x xs)
  show ?case by (cases i) (auto simp: Cons.IH)
qed

lemma index_byte_append_notin:
  "c \<notin> set xs \<Longrightarrow> index_byte (xs @ c # ys) c = Some (length xs)"
  by (induction xs) auto

lemma index_byte_notin [simp]: "c \<notin> set xs \<Longrightarrow> index_byte xs c = None"
  by (simp add: index_byte_None)

lemma cut_byte_append [simp]:
  "c \<notin> set xs \<Longrightarrow> cut_byte c (xs @ c # ys) = (xs, ys, True)"
  by (simp add: cut_byte_def index_byte_append_notin)

lemma cut_byte_notin [simp]: "c \<notin> set xs \<Longrightarrow> cut_byte c xs = (xs, [], False)"
  by (simp add: cut_byte_def)

lemma trim_left_Nil [simp]: "trim_left cs [] = []"
  by (simp add: trim_left_def)

lemma trim_left_Cons [simp]:
  "trim_left cs (x # xs) = (if x \<in> set cs then trim_left cs xs else x # xs)"
  by (simp add: trim_left_def)

lemma length_trim_left: "length (trim_left cs s) \<le> length s"
  by (simp add: trim_left_def length_dropWhile_le)

lemma trim_left_idem [simp]: "trim_left cs (trim_left cs s) = trim_left cs s"
  by (simp add: trim_left_def)

lemma split_byte_nonempty [simp]: "split_byte sep s \<noteq> []"
  by (cases s) (auto split: list.splits)

lemma split_byte_notin: "sep \<notin> set s \<Longrightarrow> split_byte sep s = [s]"
  by (induction s) auto

lemma split_byte_append:
  "sep \<notin> set xs \<Longrightarrow> split_byte sep (xs @ sep # ys) = xs # split_byte sep ys"
  by (induction xs) auto

lemma split_byte_no_sep: "p \<in> set (split_byte sep s) \<Longrightarrow> sep \<notin> set p"
proof (induction s arbitrary: p)
  case Nil
  then show ?case by simp
next
  case (Cons x xs)
  then show ?case by (auto split: if_splits list.splits)
qed

lemma join_split_byte: "join [sep] (split_byte sep s) = s"
proof (induction s)
  case Nil
  then show ?case by simp
next
  case (Cons x xs)
  obtain p ps where ps: "split_byte sep xs = p # ps"
    by (cases "split_byte sep xs") auto
  show ?case using Cons.IH by (cases ps) (auto simp: ps)
qed

lemma split_byte_join:
  assumes "ps \<noteq> []" and "\<And>p. p \<in> set ps \<Longrightarrow> sep \<notin> set p"
  shows "split_byte sep (join [sep] ps) = ps"
  using assms
proof (induction ps rule: induct_list012)
  case (3 p q ps)
  then show ?case by (simp add: split_byte_append)
qed (auto simp: split_byte_notin)

lemma has_prefix_append [simp]: "has_prefix (p @ s) p"
  by (simp add: has_prefix_def)

lemma has_prefix_iff: "has_prefix s p \<longleftrightarrow> (\<exists>t. s = p @ t)"
proof
  assume "has_prefix s p"
  then have "s = p @ drop (length p) s"
    by (metis append_take_drop_id has_prefix_def)
  then show "\<exists>t. s = p @ t" by blast
qed auto

lemma trim_prefix_append [simp]: "trim_prefix (p @ s) p = s"
  by (simp add: trim_prefix_def)

lemma contains_iff: "contains s sub \<longleftrightarrow> (\<exists>a b. s = a @ sub @ b)"
proof (induction s)
  case Nil
  then show ?case by auto
next
  case (Cons x xs)
  show ?case
  proof
    assume "contains (x # xs) sub"
    then consider "has_prefix (x # xs) sub" | "contains xs sub" by auto
    then show "\<exists>a b. x # xs = a @ sub @ b"
    proof cases
      case 1
      then show ?thesis by (metis append_Nil has_prefix_iff)
    next
      case 2
      then show ?thesis by (metis Cons.IH append_Cons)
    qed
  next
    assume "\<exists>a b. x # xs = a @ sub @ b"
    then obtain a b where ab: "x # xs = a @ sub @ b" by blast
    show "contains (x # xs) sub"
    proof (cases a)
      case Nil
      then have "has_prefix (x # xs) sub" using ab by (simp add: has_prefix_iff)
      then show ?thesis by simp
    next
      case (Cons y ys)
      then show ?thesis using ab Cons.IH by auto
    qed
  qed
qed

lemma contains_any_iff: "contains_any s cs \<longleftrightarrow> (\<exists>c \<in> set cs. c \<in> set s)"
  by (auto simp: contains_any_def list_ex_iff)

lemma set_join: "set (join sep ps) \<subseteq> set sep \<union> (\<Union>p \<in> set ps. set p)"
  by (induction sep ps rule: join.induct) auto

lemma notin_join:
  "c \<notin> set sep \<Longrightarrow> (\<And>p. p \<in> set ps \<Longrightarrow> c \<notin> set p) \<Longrightarrow> c \<notin> set (join sep ps)"
  using set_join by fastforce

section \<open>Go maps\<close>

type_synonym ('k, 'v) gomap = "('k \<times> 'v) list"

abbreviation map_put :: "'k \<Rightarrow> 'v \<Rightarrow> ('k, 'v) gomap \<Rightarrow> ('k, 'v) gomap" where
  "map_put \<equiv> AList.update"

abbreviation map_del :: "'k \<Rightarrow> ('k, 'v) gomap \<Rightarrow> ('k, 'v) gomap" where
  "map_del \<equiv> AList.delete"

abbreviation wf_map :: "('k, 'v) gomap \<Rightarrow> bool" where
  "wf_map m \<equiv> distinct (map fst m)"

text \<open>The read \<open>m[k]\<close> of a Go map gives the zero value for a key that is absent.\<close>

definition map_get :: "'v \<Rightarrow> ('k, 'v) gomap \<Rightarrow> 'k \<Rightarrow> 'v" where
  "map_get zero m k = (case map_of m k of None \<Rightarrow> zero | Some v \<Rightarrow> v)"

lemma map_of_put [simp, go_map_simps]: "map_of (map_put k v m) = (map_of m)(k \<mapsto> v)"
  by (rule update_conv')

lemma map_of_del [simp, go_map_simps]: "map_of (map_del k m) = (map_of m)(k := None)"
  by (rule delete_conv')

lemma wf_map_put [simp, intro]: "wf_map m \<Longrightarrow> wf_map (map_put k v m)"
  by (rule distinct_update)

lemma wf_map_del [simp, intro]: "wf_map m \<Longrightarrow> wf_map (map_del k m)"
  by (rule distinct_delete)

lemma keys_put [simp]: "fst ` set (map_put k v m) = insert k (fst ` set m)"
  by (simp add: dom_update)

lemma keys_del [simp]: "fst ` set (map_del k m) = fst ` set m - {k}"
  by (metis delete_keys image_set set_removeAll)

lemma map_get_put [simp, go_map_simps]:
  "map_get z (map_put k v m) j = (if j = k then v else map_get z m j)"
  by (simp add: map_get_def)

lemma map_get_del [simp, go_map_simps]:
  "map_get z (map_del k m) j = (if j = k then z else map_get z m j)"
  by (simp add: map_get_def)

lemma map_get_Nil [simp]: "map_get z [] k = z"
  by (simp add: map_get_def)

lemma map_of_eq_Some_wf: "wf_map m \<Longrightarrow> map_of m k = Some v \<longleftrightarrow> (k, v) \<in> set m"
  by (rule map_of_eq_Some_iff)

lemma map_of_tabulate: "map_of (map (\<lambda>k. (k, f k)) ks) k = (if k \<in> set ks then Some (f k) else None)"
  by (induction ks) auto

lemma map_of_None_iff: "map_of m k = None \<longleftrightarrow> k \<notin> fst ` set m"
  by (rule map_of_eq_None_iff)

lemma find_SomeD: "find f xs = Some x \<Longrightarrow> x \<in> set xs \<and> f x"
  by (induction xs) (auto split: if_splits)

lemma list_all_put: "list_all P m \<Longrightarrow> P (k, v) \<Longrightarrow> list_all P (map_put k v m)"
  by (induction m) auto

lemma list_all_del: "list_all P m \<Longrightarrow> list_all P (map_del k m)"
  by (auto simp: list_all_iff AList.delete_eq)

lemma put_nonempty [simp]: "map_put k v m \<noteq> []"
  by (cases m) auto

lemma list_all_get:
  "list_all P m \<Longrightarrow> map_of m k = Some v \<Longrightarrow> P (k, v)"
  by (auto simp: list_all_iff dest: map_of_SomeD)

section \<open>Runs of a step function\<close>

text \<open>
  The components are driven one event at a time; \<open>run\<close> folds a step over a list of events and
  collects the outputs in order. The locale says what an invariant of the step gives for runs;
  each machine of the development is an interpretation.
\<close>

fun run :: "('s \<Rightarrow> 'e \<Rightarrow> 's \<times> 'o list) \<Rightarrow> 's \<Rightarrow> 'e list \<Rightarrow> 's \<times> 'o list" where
  "run step s [] = (s, [])"
| "run step s (e # es) =
     (case step s e of (s1, os1) \<Rightarrow> case run step s1 es of (s2, os2) \<Rightarrow> (s2, os1 @ os2))"

lemma run_append:
  "run step s (es @ fs) =
     (case run step s es of (s1, os1) \<Rightarrow> case run step s1 fs of (s2, os2) \<Rightarrow> (s2, os1 @ os2))"
  by (induction es arbitrary: s) (auto split: prod.splits)

locale machine =
  fixes step :: "'s \<Rightarrow> 'e \<Rightarrow> 's \<times> 'o list"
    and inv :: "'s \<Rightarrow> bool"
  assumes inv_step: "inv s \<Longrightarrow> step s e = (s', os) \<Longrightarrow> inv s'"
begin

lemma inv_run: "inv s \<Longrightarrow> run step s es = (s', os) \<Longrightarrow> inv s'"
proof (induction es arbitrary: s os)
  case Nil
  then show ?case by simp
next
  case (Cons e es)
  then show ?case by (auto split: prod.splits dest: inv_step)
qed

lemma inv_run_fst: "inv s \<Longrightarrow> inv (fst (run step s es))"
  using inv_run by (metis prod.collapse)

end

end
