(* ===== verification/IRC_Message.thy ===== *)
theory IRC_Message
  imports Go_Prelude "HOL-Library.Multiset"
begin

text \<open>
  Package \<open>irc\<close>, files \<open>message.go\<close> and \<open>limits.go\<close>: the parsed IRC message, the line parser,
  the two ways back to a line (\<open>Encode\<close> builds it from the fields, \<open>Wire\<close> keeps the received
  line and replaces only its tag section), IRCv3 tag escapes and the line limits.

  A nil tag map and an empty one are both \<open>[]\<close>. \<open>Parse\<close> returns the error or the message; the
  half-filled message that Go returns beside an error is never read by a caller.
\<close>

section \<open>Messages\<close>

record message =
  Tags :: "(string, string) gomap"
  Source :: string
  Command :: string
  Params :: "string list"
  Raw :: string

definition empty_message :: message where
  "empty_message = \<lparr>Tags = [], Source = [], Command = [], Params = [], Raw = []\<rparr>"

text \<open>The composite literal \<open>Message{Source: s, Command: c, Params: ps}\<close>.\<close>

definition mk_message :: "string \<Rightarrow> string \<Rightarrow> string list \<Rightarrow> message" where
  "mk_message src cmd ps = \<lparr>Tags = [], Source = src, Command = cmd, Params = ps, Raw = []\<rparr>"

lemma mk_message_simps [simp]:
  "Tags (mk_message s c ps) = []" "Source (mk_message s c ps) = s"
  "Command (mk_message s c ps) = c" "Params (mk_message s c ps) = ps"
  "Raw (mk_message s c ps) = []"
  by (simp_all add: mk_message_def)

datatype parse_error =
    EmptyMessage
  | TagsWithoutCommand
  | MissingCommand
  | PrefixWithoutCommand
  | TrailingEscape
  | EmptyTagKey

subsection \<open>Tag escapes\<close>

definition unescape_char :: "char \<Rightarrow> char" where
  "unescape_char c =
     (if c = CHR '':'' then CHR '';''
      else if c = CHR ''s'' then SP
      else if c = BACKSLASH then BACKSLASH
      else if c = CHR ''r'' then CR
      else if c = CHR ''n'' then LF
      else c)"

fun unescape_loop :: "string \<Rightarrow> parse_error + string" where
  "unescape_loop [] = Inr []"
| "unescape_loop [c] = (if c = BACKSLASH then Inl TrailingEscape else Inr [c])"
| "unescape_loop (c # d # rest) =
     (if c = BACKSLASH
      then map_sum id (Cons (unescape_char d)) (unescape_loop rest)
      else map_sum id (Cons c) (unescape_loop (d # rest)))"

definition UnescapeTagValue :: "string \<Rightarrow> parse_error + string" where
  "UnescapeTagValue v = (if BACKSLASH \<notin> set v then Inr v else unescape_loop v)"

definition escape_char :: "char \<Rightarrow> string" where
  "escape_char c =
     (if c = CHR '';'' then [BACKSLASH, CHR '':'']
      else if c = SP then [BACKSLASH, CHR ''s'']
      else if c = BACKSLASH then [BACKSLASH, BACKSLASH]
      else if c = CR then [BACKSLASH, CHR ''r'']
      else if c = LF then [BACKSLASH, CHR ''n'']
      else [c])"

definition EscapeTagValue :: "string \<Rightarrow> string" where
  "EscapeTagValue v = concat (map escape_char v)"

subsection \<open>The parser\<close>

fun parse_tag_parts :: "string list \<Rightarrow> (string, string) gomap \<Rightarrow> parse_error + (string, string) gomap" where
  "parse_tag_parts [] tags = Inr tags"
| "parse_tag_parts (part # parts) tags =
     (if part = [] then parse_tag_parts parts tags
      else case index_byte part (CHR ''='') of
             None \<Rightarrow> parse_tag_parts parts (map_put part [] tags)
           | Some eq \<Rightarrow>
               (case UnescapeTagValue (drop (Suc eq) part) of
                  Inl e \<Rightarrow> Inl e
                | Inr val \<Rightarrow>
                    (if take eq part = [] then Inl EmptyTagKey
                     else parse_tag_parts parts (map_put (take eq part) val tags))))"

definition parseTags :: "string \<Rightarrow> parse_error + (string, string) gomap" where
  "parseTags tagStr = parse_tag_parts (split_byte (CHR '';'') tagStr) []"

text \<open>The loop over the parameters; each round drops at least one byte.\<close>

function parse_params :: "string \<Rightarrow> string list" where
  "parse_params s =
     (if s = [] then []
      else if hd s = CHR '':'' then [tl s]
      else case index_byte s SP of
             None \<Rightarrow> [s]
           | Some sp \<Rightarrow> take sp s # parse_params (trim_left [SP] (drop (Suc sp) s)))"
  by pat_completeness auto
termination
proof (relation "measure length", goal_cases)
  case (2 s sp)
  have "length (trim_left [SP] (drop (Suc sp) s)) \<le> length (drop (Suc sp) s)"
    by (rule length_trim_left)
  moreover have "sp < length s" using 2 by (simp add: index_byte_Some)
  ultimately show ?case by simp
qed simp

declare parse_params.simps [simp del]

text \<open>What follows the tag section: prefix, command and parameters.\<close>

definition parse_command :: "string \<Rightarrow> string \<Rightarrow> parse_error + string \<times> string \<times> string list" where
  "parse_command src s =
     (if s = [] then Inl MissingCommand
      else case index_byte s SP of
             None \<Rightarrow> Inr (src, s, [])
           | Some sp \<Rightarrow> Inr (src, take sp s, parse_params (trim_left [SP] (drop (Suc sp) s))))"

definition parse_body :: "string \<Rightarrow> parse_error + string \<times> string \<times> string list" where
  "parse_body s =
     (if s = [] then Inl MissingCommand
      else if hd s = CHR '':'' then
        (case index_byte s SP of
           None \<Rightarrow> Inl PrefixWithoutCommand
         | Some sp \<Rightarrow> parse_command (drop 1 (take sp s)) (trim_left [SP] (drop (Suc sp) s)))
      else parse_command [] s)"

definition Parse :: "string \<Rightarrow> parse_error + message" where
  "Parse line =
     (if line = [] then Inl EmptyMessage
      else if hd line = CHR ''@'' then
        (case index_byte line SP of
           None \<Rightarrow> Inl TagsWithoutCommand
         | Some sp \<Rightarrow>
             (case parseTags (drop 1 (take sp line)) of
                Inl e \<Rightarrow> Inl e
              | Inr tags \<Rightarrow>
                  (case parse_body (trim_left [SP] (drop (Suc sp) line)) of
                     Inl e \<Rightarrow> Inl e
                   | Inr (src, cmd, ps) \<Rightarrow>
                       Inr \<lparr>Tags = tags, Source = src, Command = cmd, Params = ps, Raw = line\<rparr>)))
      else
        (case parse_body line of
           Inl e \<Rightarrow> Inl e
         | Inr (src, cmd, ps) \<Rightarrow>
             Inr \<lparr>Tags = [], Source = src, Command = cmd, Params = ps, Raw = line\<rparr>))"

subsection \<open>Back to a line\<close>

text \<open>
  The in-place insertion sort of \<open>sortStrings\<close> and \<open>sortBytes\<close>: the outer loop takes the next
  element, the inner loop swaps it towards the front while it is smaller than its neighbour.
  The sorted front is kept reversed, so that one swap is one step of \<open>sink\<close>.
\<close>

fun sink :: "'a::linorder \<Rightarrow> 'a list \<Rightarrow> 'a list" where
  "sink x [] = [x]"
| "sink x (y # ys) = (if x < y then y # sink x ys else x # y # ys)"

definition sortStrings :: "string list \<Rightarrow> string list" where
  "sortStrings a = rev (foldl (\<lambda>front x. sink x front) [] a)"

definition sortBytes :: "char list \<Rightarrow> char list" where
  "sortBytes a = rev (foldl (\<lambda>front x. sink x front) [] a)"

definition format_tag :: "(string, string) gomap \<Rightarrow> string \<Rightarrow> string" where
  "format_tag tags k =
     (let v = map_get [] tags k in
      if v = [] then k else k @ CHR ''='' # EscapeTagValue v)"

definition formatTagPrefix :: "(string, string) gomap \<Rightarrow> string" where
  "formatTagPrefix tags =
     CHR ''@'' # join '';'' (map (format_tag tags) (sortStrings (map fst tags)))"

fun encode_params :: "string list \<Rightarrow> string" where
  "encode_params [] = []"
| "encode_params [p] = SP # CHR '':'' # p"
| "encode_params (p # q # ps) = SP # p @ encode_params (q # ps)"

definition Encode :: "message \<Rightarrow> string" where
  "Encode m =
     (if Tags m \<noteq> [] then formatTagPrefix (Tags m) @ [SP] else []) @
     (if Source m \<noteq> [] then CHR '':'' # Source m @ [SP] else []) @
     Command m @ encode_params (Params m)"

definition stripTagPrefix :: "string \<Rightarrow> string" where
  "stripTagPrefix line =
     (if line = [] \<or> hd line \<noteq> CHR ''@'' then line
      else case index_byte line SP of
             None \<Rightarrow> line
           | Some sp \<Rightarrow> trim_left [SP] (drop (Suc sp) line))"

definition Wire :: "message \<Rightarrow> string" where
  "Wire m =
     (if Raw m = [] then Encode m
      else if Tags m = [] then stripTagPrefix (Raw m)
      else formatTagPrefix (Tags m) @ SP # stripTagPrefix (Raw m))"

definition InvalidateRaw :: "message \<Rightarrow> message" where
  "InvalidateRaw m = m\<lparr>Raw := []\<rparr>"

subsection \<open>Accessors\<close>

definition Nick :: "message \<Rightarrow> string" where
  "Nick m = (case index_byte (Source m) (CHR ''!'') of None \<Rightarrow> Source m | Some i \<Rightarrow> take i (Source m))"

text \<open>\<open>Tag\<close> returns the value and whether it was present: here an option.\<close>

definition Tag :: "message \<Rightarrow> string \<Rightarrow> string option" where
  "Tag m k = map_of (Tags m) k"

definition Param :: "message \<Rightarrow> nat \<Rightarrow> string" where
  "Param m i = (if i < length (Params m) then Params m ! i else [])"

definition Trailing :: "message \<Rightarrow> string" where
  "Trailing m = (if Params m = [] then [] else last (Params m))"

definition params_text_rest :: "string \<Rightarrow> string \<Rightarrow> string option" where
  "params_text_rest s command =
     (if command = [] then None
      else if length s < length command \<or> \<not> equal_fold (take (length command) s) command then None
      else let rest = drop (length command) s in
        if rest = [] then Some []
        else if hd rest \<noteq> SP \<and> hd rest \<noteq> TAB then None
        else let rest2 = trim_left [SP, TAB] rest in
          if rest2 = [] then Some []
          else if hd rest2 = CHR '':'' then Some (tl rest2)
          else Some rest2)"

definition paramsTextFromRaw :: "string \<Rightarrow> string \<Rightarrow> string option" where
  "paramsTextFromRaw line command =
     (let s = stripTagPrefix line in
      if s \<noteq> [] \<and> hd s = CHR '':'' then
        (case index_byte s SP of
           None \<Rightarrow> None
         | Some sp \<Rightarrow> params_text_rest (trim_left [SP] (drop (Suc sp) s)) command)
      else params_text_rest s command)"

definition ParamsText :: "message \<Rightarrow> string" where
  "ParamsText m =
     (let joined = (if Params m = [] then [] else join '' '' (Params m)) in
      if Raw m \<noteq> [] then
        (case paramsTextFromRaw (Raw m) (Command m) of Some t \<Rightarrow> t | None \<Rightarrow> joined)
      else joined)"

subsection \<open>Limits\<close>

definition MaxClientTagSection :: nat where "MaxClientTagSection = 4096"
definition MaxCombinedTagSection :: nat where "MaxCombinedTagSection = 8191"
definition MaxMessage :: nat where "MaxMessage = 512"
definition MaxClientLine :: nat where "MaxClientLine = MaxClientTagSection + MaxMessage"
definition MaxServerLine :: nat where "MaxServerLine = MaxCombinedTagSection + MaxMessage"

definition InputTooLong :: "string \<Rightarrow> message" where
  "InputTooLong nick =
     mk_message ''gobnc'' ''417'' [if nick = [] then ''*'' else nick, ''Input line was too long'']"

definition HasRawCRLF :: "message \<Rightarrow> bool" where
  "HasRawCRLF msg \<longleftrightarrow>
     contains_any (Source msg) [CR, LF] \<or> contains_any (Command msg) [CR, LF] \<or>
     list_ex (\<lambda>p. contains_any p [CR, LF]) (Params msg) \<or>
     list_ex (\<lambda>(k, v). contains_any k [CR, LF] \<or> contains_any v [CR, LF]) (Tags msg)"

section \<open>Lemmas\<close>

subsection \<open>Sorting\<close>

lemma set_sink [simp]: "set (sink x ys) = insert x (set ys)"
  by (induction ys) auto

lemma mset_sink: "mset (sink x ys) = add_mset x (mset ys)"
  by (induction ys) auto

lemma sink_sorted: "sorted (rev ys) \<Longrightarrow> sorted (rev (sink x ys))"
proof (induction ys)
  case Nil
  then show ?case by simp
next
  case (Cons y ys)
  show ?case
  proof (cases "x < y")
    case True
    with Cons show ?thesis by (auto simp: sorted_append)
  next
    case False
    with Cons.prems show ?thesis by (force simp: sorted_append)
  qed
qed

lemma sort_loop_sorted:
  "sorted (rev front) \<Longrightarrow> sorted (rev (foldl (\<lambda>front x. sink x front) front a))"
  by (induction a arbitrary: front) (auto simp: sink_sorted)

lemma sort_loop_mset: "mset (foldl (\<lambda>front x. sink x front) front a) = mset a + mset front"
  by (induction a arbitrary: front) (auto simp: mset_sink)

lemma sort_loop_eq_sort: "rev (foldl (\<lambda>front x. sink x front) [] a) = sort a"
proof -
  have "sorted (rev (foldl (\<lambda>front x. sink x front) [] a))"
    by (rule sort_loop_sorted) simp
  moreover have "mset (rev (foldl (\<lambda>front x. sink x front) [] a)) = mset a"
    using sort_loop_mset [of "[]" a] by simp
  ultimately show ?thesis by (metis properties_for_sort)
qed

lemma sortStrings_eq_sort: "sortStrings a = sort a"
  by (simp add: sortStrings_def sort_loop_eq_sort)

lemma sortBytes_eq_sort: "sortBytes a = sort a"
  by (simp add: sortBytes_def sort_loop_eq_sort)

lemma set_sortStrings [simp]: "set (sortStrings a) = set a"
  by (simp add: sortStrings_eq_sort)

subsection \<open>Escapes\<close>

lemma unescape_loop_plain:
  "c \<noteq> BACKSLASH \<Longrightarrow> unescape_loop (c # s) = map_sum id (Cons c) (unescape_loop s)"
  by (cases s) auto

lemma unescape_loop_escape_char:
  "unescape_loop (escape_char c @ s) = map_sum id (Cons c) (unescape_loop s)"
  by (auto simp: escape_char_def unescape_char_def unescape_loop_plain)

lemma unescape_loop_escape: "unescape_loop (concat (map escape_char v)) = Inr v"
  by (induction v) (auto simp: unescape_loop_escape_char)

lemma unescape_loop_no_backslash: "BACKSLASH \<notin> set v \<Longrightarrow> unescape_loop v = Inr v"
  by (induction v) (auto simp: unescape_loop_plain)

lemma UnescapeTagValue_eq_loop: "UnescapeTagValue v = unescape_loop v"
  by (simp add: UnescapeTagValue_def unescape_loop_no_backslash)

lemma Unescape_Escape [simp]: "UnescapeTagValue (EscapeTagValue v) = Inr v"
  by (simp add: UnescapeTagValue_eq_loop EscapeTagValue_def unescape_loop_escape)

lemma EscapeTagValue_safe:
  "c \<in> set (EscapeTagValue v) \<Longrightarrow> c \<noteq> CHR '';'' \<and> c \<noteq> SP \<and> c \<noteq> CR \<and> c \<noteq> LF"
  by (auto simp: EscapeTagValue_def escape_char_def split: if_splits)

lemma EscapeTagValue_notin [simp]:
  "CHR '';'' \<notin> set (EscapeTagValue v)" "SP \<notin> set (EscapeTagValue v)"
  "CR \<notin> set (EscapeTagValue v)" "LF \<notin> set (EscapeTagValue v)"
  using EscapeTagValue_safe by blast+

subsection \<open>The tag section\<close>

definition wf_tag_key :: "string \<Rightarrow> bool" where
  "wf_tag_key k \<longleftrightarrow> k \<noteq> [] \<and> CHR ''='' \<notin> set k \<and> CHR '';'' \<notin> set k \<and> SP \<notin> set k"

definition wf_tags :: "(string, string) gomap \<Rightarrow> bool" where
  "wf_tags tags \<longleftrightarrow> wf_map tags \<and> list_all (\<lambda>(k, v). wf_tag_key k) tags"

lemma wf_tags_key: "wf_tags tags \<Longrightarrow> k \<in> fst ` set tags \<Longrightarrow> wf_tag_key k"
  by (auto simp: wf_tags_def list_all_iff)

lemma format_tag_notin:
  "wf_tag_key k \<Longrightarrow> CHR '';'' \<notin> set (format_tag tags k) \<and> SP \<notin> set (format_tag tags k)"
  by (auto simp: format_tag_def wf_tag_key_def Let_def)

lemma parse_format_tag:
  assumes "wf_tag_key k"
  shows "parse_tag_parts (format_tag tags k # parts) acc =
         parse_tag_parts parts (map_put k (map_get [] tags k) acc)"
  using assms by (auto simp: format_tag_def wf_tag_key_def Let_def index_byte_append_notin)

lemma parse_format_tags:
  "(\<And>k. k \<in> set ks \<Longrightarrow> wf_tag_key k) \<Longrightarrow>
   parse_tag_parts (map (format_tag tags) ks) acc =
   Inr (fold (\<lambda>k. map_put k (map_get [] tags k)) ks acc)"
  by (induction ks arbitrary: acc) (simp_all add: parse_format_tag del: parse_tag_parts.simps(2))

lemma map_of_fold_put:
  "map_of (fold (\<lambda>k. map_put k (f k)) ks acc) j = (if j \<in> set ks then Some (f j) else map_of acc j)"
  by (induction ks arbitrary: acc) auto

lemma map_of_get: "j \<in> fst ` set m \<Longrightarrow> Some (map_get z m j) = map_of m j"
  by (auto simp: map_get_def map_of_eq_None_iff split: option.splits)

lemma parseTags_formatTagPrefix:
  assumes "wf_tags tags" and "tags \<noteq> []"
  shows "\<exists>tags'. parseTags (tl (formatTagPrefix tags)) = Inr tags' \<and> map_of tags' = map_of tags"
proof -
  let ?ks = "sortStrings (map fst tags)"
  have wf: "wf_tag_key k" if "k \<in> set ?ks" for k
    using that assms(1) by (auto dest: wf_tags_key)
  have ne: "map (format_tag tags) ?ks \<noteq> []"
    using assms(2) by (metis list.map_disc_iff list.set(1) set_empty set_sortStrings)
  have "split_byte (CHR '';'') (tl (formatTagPrefix tags)) = map (format_tag tags) ?ks"
    unfolding formatTagPrefix_def list.sel
  proof (rule split_byte_join [OF ne])
    fix p assume "p \<in> set (map (format_tag tags) ?ks)"
    then show "CHR '';'' \<notin> set p" using wf format_tag_notin by auto
  qed
  then have "parseTags (tl (formatTagPrefix tags)) =
      Inr (fold (\<lambda>k. map_put k (map_get [] tags k)) ?ks [])"
    by (simp only: parseTags_def parse_format_tags [OF wf])
  moreover have "map_of (fold (\<lambda>k. map_put k (map_get [] tags k)) ?ks []) = map_of tags"
  proof
    fix j
    show "map_of (fold (\<lambda>k. map_put k (map_get [] tags k)) ?ks []) j = map_of tags j"
      by (cases "j \<in> fst ` set tags")
        (auto simp: map_of_fold_put map_of_get map_of_eq_None_iff [THEN iffD2])
  qed
  ultimately show ?thesis by blast
qed

lemma formatTagPrefix_Cons: "formatTagPrefix tags = CHR ''@'' # tl (formatTagPrefix tags)"
  by (simp add: formatTagPrefix_def)

lemma formatTagPrefix_no_space:
  assumes "wf_tags tags" shows "SP \<notin> set (formatTagPrefix tags)"
proof -
  have "SP \<notin> set (format_tag tags k)" if "k \<in> fst ` set tags" for k
    using that assms wf_tags_key format_tag_notin by blast
  then have "SP \<notin> set (join '';'' (map (format_tag tags) (sortStrings (map fst tags))))"
    by (intro notin_join) auto
  then show ?thesis by (simp add: formatTagPrefix_def)
qed

text \<open>A well-formed tag section in front of a body that does not begin with a space.\<close>

lemma Parse_with_tags:
  assumes wf: "wf_tags tags" "tags \<noteq> []"
    and body: "body \<noteq> []" "hd body \<noteq> SP" "parse_body body = Inr (src, cmd, ps)"
  shows "\<exists>m. Parse (formatTagPrefix tags @ SP # body) = Inr m \<and> Source m = src \<and> Command m = cmd
           \<and> Params m = ps \<and> map_of (Tags m) = map_of tags"
proof -
  obtain tags' where t: "parseTags (tl (formatTagPrefix tags)) = Inr tags'" "map_of tags' = map_of tags"
    using parseTags_formatTagPrefix [OF wf] by blast
  let ?line = "formatTagPrefix tags @ SP # body"
  have at: "?line \<noteq> []" "hd ?line = CHR ''@''"
    by (simp_all add: formatTagPrefix_def)
  have ix: "index_byte ?line SP = Some (length (formatTagPrefix tags))"
    using formatTagPrefix_no_space [OF wf(1)] by (rule index_byte_append_notin)
  have tg: "drop 1 (take (length (formatTagPrefix tags)) ?line) = tl (formatTagPrefix tags)"
    by (simp add: drop_Suc)
  have tr: "trim_left [SP] body = body" using body by (cases body) auto
  show ?thesis
    unfolding Parse_def using at ix tg tr t body(3) by simp
qed

lemma Parse_without_tags:
  assumes "line \<noteq> []" "hd line \<noteq> CHR ''@''" "parse_body line = Inr (src, cmd, ps)"
  shows "\<exists>m. Parse line = Inr m \<and> Source m = src \<and> Command m = cmd \<and> Params m = ps \<and> Tags m = []"
  using assms by (simp add: Parse_def)

lemma Parse_body:
  assumes "Parse line = Inr m"
  shows "parse_body (stripTagPrefix line) = Inr (Source m, Command m, Params m)" and "Raw m = line"
  using assms by (auto simp: Parse_def stripTagPrefix_def split: if_splits option.splits sum.splits prod.splits)

lemma parse_params_Nil [simp]: "parse_params [] = []"
  by (simp add: parse_params.simps)

lemma parse_body_Nil [simp]: "parse_body [] = Inl MissingCommand"
  by (simp add: parse_body_def)

lemma parse_command_head:
  assumes "parse_command src s = Inr (src', cmd, ps)" and "cmd \<noteq> []"
  shows "src' = src" and "hd cmd = hd s" and "SP \<notin> set cmd"
  using assms
  by (auto simp: parse_command_def index_byte_Some index_byte_None hd_take split: if_splits option.splits)

lemma parse_body_head:
  assumes "parse_body s = Inr (src, cmd, ps)" and "cmd \<noteq> []"
  shows "hd s = CHR '':'' \<or> src = [] \<and> hd s = hd cmd \<and> hd s \<noteq> SP"
proof (cases "s \<noteq> [] \<and> hd s \<noteq> CHR '':''")
  case True
  then have "parse_command [] s = Inr (src, cmd, ps)"
    using assms(1) by (simp add: parse_body_def)
  from parse_command_head [OF this assms(2)] show ?thesis
    using assms(2) by (metis hd_in_set)
next
  case False
  then show ?thesis using assms(1) by auto
qed

subsection \<open>Encoded bodies\<close>

definition wf_middle :: "string \<Rightarrow> bool" where
  "wf_middle p \<longleftrightarrow> p \<noteq> [] \<and> hd p \<noteq> CHR '':'' \<and> SP \<notin> set p"

text \<open>
  The messages that a line can carry: a command and middle parameters that are words, a source
  without spaces, tag keys that are tag keys. The last parameter is free.
\<close>

definition wf_message :: "message \<Rightarrow> bool" where
  "wf_message m \<longleftrightarrow>
     wf_tags (Tags m) \<and> SP \<notin> set (Source m) \<and>
     Command m \<noteq> [] \<and> hd (Command m) \<noteq> CHR '':'' \<and> hd (Command m) \<noteq> CHR ''@'' \<and>
     SP \<notin> set (Command m) \<and> list_all wf_middle (butlast (Params m))"

lemma wf_middle_trim: "wf_middle p \<Longrightarrow> trim_left [SP] (p @ s) = p @ s"
  by (cases p) (auto simp: wf_middle_def)

lemma parse_params_encode:
  assumes "list_all wf_middle (butlast ps)" and "ps \<noteq> []"
  shows "parse_params (trim_left [SP] (tl (encode_params ps))) = ps"
  using assms
proof (induction ps rule: encode_params.induct)
  case (2 p)
  then show ?case by (simp add: parse_params.simps)
next
  case (3 p q ps)
  then have p: "wf_middle p" and IH: "parse_params (trim_left [SP] (tl (encode_params (q # ps)))) = q # ps"
    by auto
  obtain rest where rest: "encode_params (q # ps) = SP # rest"
    by (cases ps) auto
  have "trim_left [SP] (p @ SP # rest) = p @ SP # rest"
    using p by (rule wf_middle_trim)
  moreover have "parse_params (p @ SP # rest) = p # parse_params (trim_left [SP] rest)"
    using p by (subst parse_params.simps) (auto simp: wf_middle_def index_byte_append_notin hd_append)
  ultimately show ?case using IH by (simp add: rest)
qed simp

lemma parse_command_encode:
  assumes "wf_message m"
  shows "parse_command src (Command m @ encode_params (Params m)) = Inr (src, Command m, Params m)"
proof (cases "Params m = []")
  case True
  with assms show ?thesis by (simp add: parse_command_def wf_message_def)
next
  case False
  then obtain rest where rest: "encode_params (Params m) = SP # rest"
    by (cases "Params m" rule: encode_params.cases) auto
  from assms have mid: "list_all wf_middle (butlast (Params m))" and sp: "SP \<notin> set (Command m)"
    by (auto simp: wf_message_def)
  have "parse_params (trim_left [SP] rest) = Params m"
    using parse_params_encode [OF mid False] by (simp add: rest)
  with sp show ?thesis by (auto simp: parse_command_def rest index_byte_append_notin)
qed

lemma parse_body_encode:
  assumes "wf_message m"
  shows "parse_body ((if Source m \<noteq> [] then CHR '':'' # Source m @ [SP] else []) @
           Command m @ encode_params (Params m)) = Inr (Source m, Command m, Params m)"
proof (cases "Source m = []")
  case True
  with assms have "hd (Command m @ encode_params (Params m)) \<noteq> CHR '':''" "Command m \<noteq> []"
    by (auto simp: wf_message_def hd_append)
  with True show ?thesis
    by (simp add: parse_body_def parse_command_encode [OF assms])
next
  case False
  let ?rest = "Command m @ encode_params (Params m)"
  from assms have sp: "SP \<notin> set (CHR '':'' # Source m)" and c: "Command m \<noteq> []" "hd (Command m) \<noteq> SP"
    by (auto simp: wf_message_def dest: hd_in_set)
  have ix: "index_byte (CHR '':'' # Source m @ SP # ?rest) SP = Some (Suc (length (Source m)))"
    using index_byte_append_notin [OF sp, of ?rest] by simp
  have "trim_left [SP] ?rest = ?rest" using c by (cases "Command m") auto
  with False ix show ?thesis
    by (simp add: parse_body_def parse_command_encode [OF assms])
qed

section \<open>Properties\<close>

text \<open>
  C7. Round trip of \<open>Encode\<close> and \<open>Parse\<close>: a message whose source, command and middle parameters
  are words that a line can carry comes back field by field, whatever its last parameter and its
  tag values hold (spaces, colons, semicolons, backslashes, line breaks).
\<close>

theorem Parse_Encode:
  assumes "wf_message m"
  shows "\<exists>m'. Parse (Encode m) = Inr m' \<and> Source m' = Source m \<and> Command m' = Command m
           \<and> Params m' = Params m \<and> map_of (Tags m') = map_of (Tags m)"
proof -
  let ?src = "if Source m \<noteq> [] then CHR '':'' # Source m @ [SP] else []"
  let ?body = "?src @ Command m @ encode_params (Params m)"
  have pb: "parse_body ?body = Inr (Source m, Command m, Params m)"
    by (rule parse_body_encode [OF assms])
  have body: "?body \<noteq> []" "hd ?body \<noteq> SP" "hd ?body \<noteq> CHR ''@''"
    using assms by (auto simp: wf_message_def hd_append dest: hd_in_set)
  show ?thesis
  proof (cases "Tags m = []")
    case True
    then have "Encode m = ?body" by (simp add: Encode_def)
    then show ?thesis using Parse_without_tags [OF body(1,3) pb] True by auto
  next
    case False
    then have "Encode m = formatTagPrefix (Tags m) @ SP # ?body" by (simp add: Encode_def)
    moreover have "wf_tags (Tags m)" using assms by (simp add: wf_message_def)
    ultimately show ?thesis using Parse_with_tags [OF _ False body(1,2) pb] by simp
  qed
qed

theorem Parse_Encode_witness:
  "\<exists>m'. Parse (Encode \<lparr>Tags = [(''time'', ''a;b c''), (''id'', [])], Source = ''n!u@h'',
      Command = ''PRIVMSG'', Params = [''#c'', '':hi  there ''], Raw = []\<rparr>) = Inr m'
    \<and> Source m' = ''n!u@h'' \<and> Command m' = ''PRIVMSG'' \<and> Params m' = [''#c'', '':hi  there '']
    \<and> map_of (Tags m') = map_of [(''time'', ''a;b c''), (''id'', [])]"
  using Parse_Encode [of "\<lparr>Tags = [(''time'', ''a;b c''), (''id'', [])], Source = ''n!u@h'',
      Command = ''PRIVMSG'', Params = [''#c'', '':hi  there ''], Raw = []\<rparr>"]
  by (simp add: wf_message_def wf_tags_def wf_tag_key_def wf_middle_def)

text \<open>
  C19. \<open>Wire\<close> keeps a received line's meaning: when a parsed message gets a new tag set and its body is
  unchanged, the line sent on parses to the same source, command and parameters, with exactly
  the new tags. The two side conditions are the two lines that \<open>Parse\<close> accepts and \<open>Wire\<close> does
  not preserve: a line that begins with a space (empty command), and a command that itself begins
  with \<open>@\<close> behind a tag section.
\<close>

theorem Wire_preserves_body:
  assumes parsed: "Parse line = Inr m"
    and cmd: "Command m \<noteq> []" "Source m = [] \<longrightarrow> hd (Command m) \<noteq> CHR ''@''"
    and tags: "wf_tags t"
  shows "\<exists>m'. Parse (Wire (m\<lparr>Tags := t\<rparr>)) = Inr m' \<and> Source m' = Source m \<and> Command m' = Command m
           \<and> Params m' = Params m \<and> map_of (Tags m') = map_of t"
proof -
  let ?body = "stripTagPrefix line"
  have pb: "parse_body ?body = Inr (Source m, Command m, Params m)" and raw: "Raw m = line"
    using Parse_body [OF parsed] by auto
  then have ne: "?body \<noteq> []" by auto
  have rawne: "Raw m \<noteq> []" using parsed raw by (auto simp: Parse_def)
  have sp: "hd ?body \<noteq> SP" and at: "hd ?body \<noteq> CHR ''@''"
    using parse_body_head [OF pb] cmd by auto
  show ?thesis
  proof (cases "t = []")
    case True
    then have "Wire (m\<lparr>Tags := t\<rparr>) = ?body" using rawne raw by (simp add: Wire_def)
    then show ?thesis using Parse_without_tags [OF ne at pb] True by auto
  next
    case False
    then have "Wire (m\<lparr>Tags := t\<rparr>) = formatTagPrefix t @ SP # ?body"
      using rawne raw by (simp add: Wire_def)
    then show ?thesis using Parse_with_tags [OF tags False ne sp pb] by simp
  qed
qed

theorem Wire_preserves_body_witness:
  "\<exists>m m'. Parse ''@time=1 :n!u@h PRIVMSG #c :a b'' = Inr m
     \<and> Parse (Wire (m\<lparr>Tags := [(''label'', ''x y'')]\<rparr>)) = Inr m' \<and> Source m' = ''n!u@h''
     \<and> Command m' = ''PRIVMSG'' \<and> Params m' = [''#c'', ''a b'']
     \<and> map_of (Tags m') = map_of [(''label'', ''x y'')]"
proof -
  let ?m = "\<lparr>Tags = [(''time'', ''1'')], Source = ''n!u@h'', Command = ''PRIVMSG'',
    Params = [''#c'', ''a b''], Raw = ''@time=1 :n!u@h PRIVMSG #c :a b''\<rparr>"
  have p: "Parse ''@time=1 :n!u@h PRIVMSG #c :a b'' = Inr ?m"
    by (simp add: Parse_def parseTags_def UnescapeTagValue_def parse_body_def parse_command_def
        parse_params.simps)
  show ?thesis
    using Wire_preserves_body [OF p, of "[(''label'', ''x y'')]"] p
    by (simp add: wf_tags_def wf_tag_key_def)
qed

text \<open>
  C20. Tag values survive the wire: unescaping an escaped value gives it back, for every byte string,
  and the escaped form contains none of the bytes that delimit tags or lines.
\<close>

theorem EscapeTagValue_roundtrip:
  "UnescapeTagValue (EscapeTagValue v) = Inr v \<and>
   set (EscapeTagValue v) \<inter> {CHR '';'', SP, CR, LF} = {}"
  using EscapeTagValue_safe by auto

text \<open>
  C21. No line injection through \<open>Encode\<close>: a message that \<open>HasRawCRLF\<close> accepts encodes to a single
  line, with no carriage return or line feed anywhere, tag section included.
\<close>

theorem HasRawCRLF_Encode:
  assumes "\<not> HasRawCRLF m"
  shows "CR \<notin> set (Encode m) \<and> LF \<notin> set (Encode m)"
proof -
  have src: "CR \<notin> set (Source m)" "LF \<notin> set (Source m)"
    and cmd: "CR \<notin> set (Command m)" "LF \<notin> set (Command m)"
    and ps: "\<And>p. p \<in> set (Params m) \<Longrightarrow> CR \<notin> set p \<and> LF \<notin> set p"
    and ks: "\<And>k. k \<in> fst ` set (Tags m) \<Longrightarrow> CR \<notin> set k \<and> LF \<notin> set k"
    using assms by (auto simp: HasRawCRLF_def contains_any_iff list_ex_iff)
  have enc: "(\<And>p. p \<in> set qs \<Longrightarrow> CR \<notin> set p \<and> LF \<notin> set p) \<Longrightarrow>
      CR \<notin> set (encode_params qs) \<and> LF \<notin> set (encode_params qs)" for qs
    by (induction qs rule: encode_params.induct) auto
  let ?parts = "map (format_tag (Tags m)) (sortStrings (map fst (Tags m)))"
  have "CR \<notin> set q \<and> LF \<notin> set q" if "q \<in> set ?parts" for q
  proof -
    from that obtain k where k: "k \<in> fst ` set (Tags m)" "q = format_tag (Tags m) k" by auto
    from ks [OF k(1)] show ?thesis by (auto simp: k(2) format_tag_def Let_def)
  qed
  then have "CR \<notin> set (join '';'' ?parts)" "LF \<notin> set (join '';'' ?parts)"
    by (intro notin_join; simp)+
  then have "CR \<notin> set (formatTagPrefix (Tags m)) \<and> LF \<notin> set (formatTagPrefix (Tags m))"
    by (simp add: formatTagPrefix_def)
  with src cmd enc [of "Params m", OF ps] show ?thesis by (simp add: Encode_def)
qed

theorem HasRawCRLF_Encode_witness:
  "CR \<notin> set (Encode (mk_message ''srv'' ''NOTICE'' [''n'', ''hi'']))
   \<and> LF \<notin> set (Encode (mk_message ''srv'' ''NOTICE'' [''n'', ''hi'']))"
  using HasRawCRLF_Encode [of "mk_message ''srv'' ''NOTICE'' [''n'', ''hi'']"]
  by (simp add: HasRawCRLF_def contains_any_def)

text \<open>
  C22. Opaque single-argument commands (PASS, AUTHENTICATE): \<open>ParamsText\<close> gives the payload back byte
  for byte, with inner spaces, whether or not the client put a colon in front of it.
\<close>

theorem ParamsText_payload:
  assumes cmd: "cmd \<noteq> []" "hd cmd \<noteq> CHR '':''" "hd cmd \<noteq> CHR ''@''" "SP \<notin> set cmd"
    and payload: "payload \<noteq> []" "hd payload \<notin> {SP, TAB, CHR '':''}"
  shows "\<exists>m m'. Parse (cmd @ SP # payload) = Inr m \<and> Parse (cmd @ SP # CHR '':'' # payload) = Inr m'
           \<and> Command m = cmd \<and> ParamsText m = payload \<and> Command m' = cmd \<and> ParamsText m' = payload"
proof -
  have after_cmd: "\<exists>m. Parse (cmd @ SP # rest) = Inr m \<and> Command m = cmd
      \<and> ParamsText m = (if hd rest = CHR '':'' then tl rest else rest)"
    if rest: "rest \<noteq> []" "hd rest \<notin> {SP, TAB}" for rest
  proof -
    let ?line = "cmd @ SP # rest"
    have hd: "hd ?line = hd cmd" using cmd(1) by simp
    have "parse_body ?line = Inr ([], cmd, parse_params (trim_left [SP] rest))"
      using cmd hd by (simp add: parse_body_def parse_command_def index_byte_append_notin)
    moreover have "stripTagPrefix ?line = ?line" using cmd hd by (simp add: stripTagPrefix_def)
    moreover have "trim_left [SP, TAB] (SP # rest) = rest" using rest by (cases rest) auto
    ultimately show ?thesis using cmd hd rest
      by (simp add: Parse_def ParamsText_def paramsTextFromRaw_def params_text_rest_def Let_def)
  qed
  show ?thesis
    using after_cmd [of payload] after_cmd [of "CHR '':'' # payload"] payload by auto
qed

theorem ParamsText_payload_witness:
  "\<exists>m m'. Parse (''PASS'' @ SP # ''libera/a b '') = Inr m
     \<and> Parse (''PASS'' @ SP # CHR '':'' # ''libera/a b '') = Inr m'
     \<and> Command m = ''PASS'' \<and> ParamsText m = ''libera/a b ''
     \<and> Command m' = ''PASS'' \<and> ParamsText m' = ''libera/a b ''"
  by (rule ParamsText_payload) simp_all

end
