(* ===== verification/IRC_Casemap.thy ===== *)
theory IRC_Casemap
  imports Go_Prelude
begin

text \<open>
  Package \<open>irc\<close>, file \<open>casemap.go\<close>: the ISUPPORT case mappings. Every map of the session that is
  keyed by a nick or a channel is keyed by \<open>Canonical\<close>, so what the clients of this theory need
  is that folding is idempotent and keeps the length; that contract is the locale \<open>nick_folding\<close>,
  and the three byte tables of the source are interpretations of it.
\<close>

section \<open>The case mappings\<close>

datatype CaseMapping = CaseRFC1459 | CaseStrictRFC1459 | CaseASCII

definition ParseCaseMapping :: "string \<Rightarrow> CaseMapping" where
  "ParseCaseMapping s =
     (let l = to_lower s in
      if l = ''ascii'' then CaseASCII
      else if l = ''strict-rfc1459'' then CaseStrictRFC1459
      else CaseRFC1459)"

definition fold_ascii_byte :: "char \<Rightarrow> char" where
  "fold_ascii_byte c = lower_byte c"

definition fold_rfc1459_byte :: "char \<Rightarrow> char" where
  "fold_rfc1459_byte c =
     (if is_upper_byte c then lower_byte c
      else if c = CHR ''['' then CHR ''{''
      else if c = CHR '']'' then CHR ''}''
      else if c = BACKSLASH then CHR ''|''
      else if c = CHR ''~'' then CHR ''^''
      else c)"

definition fold_strict_byte :: "char \<Rightarrow> char" where
  "fold_strict_byte c =
     (if is_upper_byte c then lower_byte c
      else if c = CHR ''['' then CHR ''{''
      else if c = CHR '']'' then CHR ''}''
      else if c = BACKSLASH then CHR ''|''
      else c)"

definition foldASCII :: "string \<Rightarrow> string" where
  "foldASCII s = map fold_ascii_byte s"

definition foldRFC1459 :: "string \<Rightarrow> string" where
  "foldRFC1459 s = map fold_rfc1459_byte s"

definition foldStrictRFC1459 :: "string \<Rightarrow> string" where
  "foldStrictRFC1459 s = map fold_strict_byte s"

fun Fold :: "CaseMapping \<Rightarrow> string \<Rightarrow> string" where
  "Fold CaseASCII s = foldASCII s"
| "Fold CaseStrictRFC1459 s = foldStrictRFC1459 s"
| "Fold CaseRFC1459 s = foldRFC1459 s"

definition Equal :: "CaseMapping \<Rightarrow> string \<Rightarrow> string \<Rightarrow> bool" where
  "Equal c a b \<longleftrightarrow> Fold c a = Fold c b"

definition Canonical :: "CaseMapping \<Rightarrow> string \<Rightarrow> string" where
  "Canonical c s = Fold c s"

section \<open>The contract of a case mapping\<close>

locale nick_folding =
  fixes folded :: "string \<Rightarrow> string"
  assumes folded_idem: "folded (folded s) = folded s"
    and folded_length: "length (folded s) = length s"
begin

lemma folded_empty: "folded s = [] \<longleftrightarrow> s = []"
  by (metis folded_length length_0_conv)

lemma folded_eq_folded: "folded a = b \<Longrightarrow> folded b = b"
  using folded_idem by blast

lemma folded_classes: "folded (folded a) = folded b \<longleftrightarrow> folded a = folded b"
  by (simp add: folded_idem)

end

text \<open>A table on bytes, applied to every byte, is such a mapping when the table is idempotent.\<close>

locale byte_folding =
  fixes table :: "char \<Rightarrow> char"
  assumes table_idem: "table (table c) = table c"

sublocale byte_folding \<subseteq> nick_folding "map table"
  by unfold_locales (simp_all add: table_idem)

lemma lower_byte_not_upper [simp]: "\<not> is_upper_byte (lower_byte c)"
  by (simp add: is_upper_byte_def of_char_less_eq lower_byte_code)

lemma lower_byte_of_upper_ge: "is_upper_byte c \<Longrightarrow> CHR ''a'' \<le> lower_byte c \<and> lower_byte c \<le> CHR ''z''"
  by (simp add: is_upper_byte_def of_char_less_eq lower_byte_code)

lemma lower_byte_of_upper_neq:
  assumes "is_upper_byte c"
  shows "lower_byte c \<noteq> CHR ''[''" "lower_byte c \<noteq> CHR '']''" "lower_byte c \<noteq> BACKSLASH"
    "lower_byte c \<noteq> CHR ''~''"
  using lower_byte_of_upper_ge [OF assms] by (auto simp: of_char_less_eq)

lemma not_upper_special [simp]:
  "\<not> is_upper_byte (CHR ''{'')" "\<not> is_upper_byte (CHR ''}'')" "\<not> is_upper_byte (CHR ''|'')"
  "\<not> is_upper_byte (CHR ''^'')" "\<not> is_upper_byte (CHR ''['')" "\<not> is_upper_byte (CHR '']'')"
  "\<not> is_upper_byte BACKSLASH" "\<not> is_upper_byte (CHR ''~'')"
  by (simp_all add: is_upper_byte_def of_char_less_eq)

interpretation ascii_table: byte_folding fold_ascii_byte
  by unfold_locales (simp add: fold_ascii_byte_def)

interpretation rfc1459_table: byte_folding fold_rfc1459_byte
  by unfold_locales (simp add: fold_rfc1459_byte_def lower_byte_of_upper_neq)

interpretation strict_table: byte_folding fold_strict_byte
  by unfold_locales (simp add: fold_strict_byte_def lower_byte_of_upper_neq)

interpretation cm: nick_folding "Fold c" for c
proof
  fix s
  show "Fold c (Fold c s) = Fold c s"
    by (cases c) (simp_all only: Fold.simps foldASCII_def foldRFC1459_def foldStrictRFC1459_def
        ascii_table.folded_idem rfc1459_table.folded_idem strict_table.folded_idem)
  show "length (Fold c s) = length s"
    by (cases c) (simp_all add: foldASCII_def foldRFC1459_def foldStrictRFC1459_def)
qed

lemma Canonical_idem [simp]: "Canonical c (Canonical c s) = Canonical c s"
  by (simp add: Canonical_def cm.folded_idem)

lemma Canonical_empty [simp]: "Canonical c s = [] \<longleftrightarrow> s = []"
  by (simp add: Canonical_def cm.folded_empty)

lemma Canonical_Nil [simp]: "Canonical c [] = []"
  by simp

lemma Equal_Canonical: "Equal c a b \<longleftrightarrow> Canonical c a = Canonical c b"
  by (simp add: Equal_def Canonical_def)

lemma Equal_refl [simp]: "Equal c a a"
  by (simp add: Equal_def)

lemma Equal_sym: "Equal c a b \<Longrightarrow> Equal c b a"
  by (simp add: Equal_def)

lemma Equal_trans: "Equal c a b \<Longrightarrow> Equal c b d \<Longrightarrow> Equal c a d"
  by (simp add: Equal_def)

lemma lower_byte_id: "\<not> is_upper_byte c \<Longrightarrow> lower_byte c = c"
  by (simp add: lower_byte_def)

lemma fold_strict_of_ascii: "fold_strict_byte (fold_ascii_byte b) = fold_strict_byte b"
  by (simp add: fold_strict_byte_def fold_ascii_byte_def lower_byte_id lower_byte_of_upper_neq)

lemma fold_rfc_of_strict: "fold_rfc1459_byte (fold_strict_byte b) = fold_rfc1459_byte b"
  by (simp add: fold_rfc1459_byte_def fold_strict_byte_def lower_byte_of_upper_neq)

section \<open>The classes of a case mapping\<close>

text \<open>
  What the three names of \<open>CASEMAPPING\<close> stand for: \<open>ascii\<close> pairs the letters, \<open>strict-rfc1459\<close> also the brackets and the
  backslash with the braces and the bar, and \<open>rfc1459\<close> also the tilde with the caret.
\<close>

definition letter_pairs :: "(char \<times> char) list" where
  "letter_pairs = zip ''ABCDEFGHIJKLMNOPQRSTUVWXYZ'' ''abcdefghijklmnopqrstuvwxyz''"

definition case_pairs :: "CaseMapping \<Rightarrow> (char \<times> char) list" where
  "case_pairs c =
     (case c of
        CaseASCII \<Rightarrow> letter_pairs
      | CaseStrictRFC1459 \<Rightarrow> letter_pairs @ [(CHR ''['', CHR ''{''), (CHR '']'', CHR ''}''), (BACKSLASH, CHR ''|'')]
      | CaseRFC1459 \<Rightarrow>
          letter_pairs @ [(CHR ''['', CHR ''{''), (CHR '']'', CHR ''}''), (BACKSLASH, CHR ''|''), (CHR ''~'', CHR ''^'')])"

definition paired :: "CaseMapping \<Rightarrow> char \<Rightarrow> char \<Rightarrow> bool" where
  "paired c x y \<longleftrightarrow> x = y \<or> (x, y) \<in> set (case_pairs c) \<or> (y, x) \<in> set (case_pairs c)"

definition pair_subst :: "(char \<times> char) list \<Rightarrow> char \<Rightarrow> char" where
  "pair_subst ps x = (case map_of ps x of None \<Rightarrow> x | Some y \<Rightarrow> y)"

lemma pair_subst_eq:
  assumes "distinct (map fst ps @ map snd ps)"
  shows "pair_subst ps x = pair_subst ps y \<longleftrightarrow> x = y \<or> (x, y) \<in> set ps \<or> (y, x) \<in> set ps"
proof -
  have fst: "distinct (map fst ps)" and snd: "distinct (map snd ps)" and "fst ` set ps \<inter> snd ` set ps = {}"
    using assms by auto
  then have sep: "(v, w) \<notin> set ps" if "(u, v) \<in> set ps" for u v w using that by force
  have inj: "u = u'" if "(u, v) \<in> set ps" "(u', v) \<in> set ps" for u u' v
    using snd that by (metis distinct_map inj_onD prod.inject snd_conv)
  have one: "v = w" if "(u, v) \<in> set ps" "(u, w) \<in> set ps" for u v w
    using fst that by (metis map_of_is_SomeI option.inject)
  have to: "pair_subst ps u = v" if "(u, v) \<in> set ps" for u v using fst that by (simp add: pair_subst_def)
  have stay: "pair_subst ps u = u" if "\<nexists>v. (u, v) \<in> set ps" for u
    using that by (auto simp: pair_subst_def dest: map_of_SomeD split: option.split)
  show ?thesis
  proof (cases "\<exists>u. (x, u) \<in> set ps"; cases "\<exists>v. (y, v) \<in> set ps")
    assume "\<exists>u. (x, u) \<in> set ps" "\<exists>v. (y, v) \<in> set ps"
    then obtain u v where "(x, u) \<in> set ps" "(y, v) \<in> set ps" by blast
    then show ?thesis by (metis to sep inj)
  next
    assume "\<exists>u. (x, u) \<in> set ps" "\<nexists>v. (y, v) \<in> set ps"
    then show ?thesis using to [of x] stay [of y] by (metis one)
  next
    assume "\<nexists>u. (x, u) \<in> set ps" "\<exists>v. (y, v) \<in> set ps"
    then show ?thesis using to [of y] stay [of x] by (metis one)
  next
    assume "\<nexists>u. (x, u) \<in> set ps" "\<nexists>v. (y, v) \<in> set ps"
    then show ?thesis using stay by auto
  qed
qed

lemma ascii_subst: "\<forall>x. fold_ascii_byte x = pair_subst (case_pairs CaseASCII) x"
  by code_simp

lemma strict_subst: "\<forall>x. fold_strict_byte x = pair_subst (case_pairs CaseStrictRFC1459) x"
  by code_simp

lemma rfc1459_subst: "\<forall>x. fold_rfc1459_byte x = pair_subst (case_pairs CaseRFC1459) x"
  by code_simp

lemmas tables_subst = ascii_subst strict_subst rfc1459_subst

lemma case_pairs_distinct: "distinct (map fst (case_pairs c) @ map snd (case_pairs c))"
proof -
  have "distinct (map fst (case_pairs CaseRFC1459) @ map snd (case_pairs CaseRFC1459))" by code_simp
  moreover have "distinct (map fst (case_pairs CaseStrictRFC1459) @ map snd (case_pairs CaseStrictRFC1459))" by code_simp
  moreover have "distinct (map fst (case_pairs CaseASCII) @ map snd (case_pairs CaseASCII))" by code_simp
  ultimately show ?thesis by (cases c) simp_all
qed

lemma map_eq_list_all2: "map f xs = map f ys \<longleftrightarrow> list_all2 (\<lambda>x y. f x = f y) xs ys"
proof (induction xs arbitrary: ys)
  case (Cons x xs)
  then show ?case by (cases ys) auto
qed simp

lemma Equal_paired: "Equal c a b \<longleftrightarrow> list_all2 (paired c) a b"
proof -
  have "Fold c s = map (pair_subst (case_pairs c)) s" for s
    by (cases c) (simp_all add: foldASCII_def foldStrictRFC1459_def foldRFC1459_def tables_subst)
  then have "Equal c a b \<longleftrightarrow> list_all2 (\<lambda>x y. pair_subst (case_pairs c) x = pair_subst (case_pairs c) y) a b"
    by (simp add: Equal_def map_eq_list_all2)
  then show ?thesis by (simp only: pair_subst_eq [OF case_pairs_distinct] paired_def [abs_def])
qed

lemma case_pairs_grow:
  "paired CaseASCII x y \<Longrightarrow> paired CaseStrictRFC1459 x y"
  "paired CaseStrictRFC1459 x y \<Longrightarrow> paired CaseRFC1459 x y"
  by (auto simp: paired_def case_pairs_def)

text \<open>
  C23. The mappings equate what their names say: two names are equal exactly when they have the same length and
  differ only in bytes that are a pair of the mapping (the letters; with \<open>strict-rfc1459\<close> also \<open>[]\<close> and the backslash
  with \<open>{}\<close> and the bar; with \<open>rfc1459\<close> also the tilde with the caret). So the mappings are ordered, and a map keyed by
  canonical names confuses exactly the names that the mapping equates.
\<close>

theorem case_mappings_coarsen:
  "(Equal c a b \<longleftrightarrow> list_all2 (paired c) a b) \<and>
   (Equal CaseASCII a b \<longrightarrow> Equal CaseStrictRFC1459 a b) \<and>
   (Equal CaseStrictRFC1459 a b \<longrightarrow> Equal CaseRFC1459 a b) \<and>
   equivp (Equal c) \<and> Equal c a (Canonical c a) \<and>
   (Canonical c a = Canonical c b \<longleftrightarrow> Equal c a b)"
proof -
  have "equivp (Equal c)"
    by (rule equivpI) (auto simp: Equal_def reflp_def symp_def transp_def)
  then show ?thesis
    using list_all2_mono [of "paired CaseASCII" a b "paired CaseStrictRFC1459"] list_all2_mono [of "paired CaseStrictRFC1459" a b "paired CaseRFC1459"] case_pairs_grow
    by (simp add: Equal_paired [symmetric]) (simp add: Equal_def Canonical_def cm.folded_idem)
qed

theorem case_mappings_coarsen_witness:
  "Equal CaseRFC1459 ''[Nick]~'' ''{nICK}^'' \<and> \<not> Equal CaseStrictRFC1459 ''[Nick]~'' ''{nICK}^'' \<and>
   \<not> Equal CaseASCII ''[Nick]'' ''{nICK}''"
proof -
  have "list_all2 (paired CaseRFC1459) ''[Nick]~'' ''{nICK}^''"
    and "\<not> list_all2 (paired CaseStrictRFC1459) ''[Nick]~'' ''{nICK}^''"
    and "\<not> list_all2 (paired CaseASCII) ''[Nick]'' ''{nICK}''" by code_simp+
  then show ?thesis
    using case_mappings_coarsen [of CaseRFC1459 "''[Nick]~''" "''{nICK}^''"]
      case_mappings_coarsen [of CaseStrictRFC1459 "''[Nick]~''" "''{nICK}^''"]
      case_mappings_coarsen [of CaseASCII "''[Nick]''" "''{nICK}''"] by blast
qed

end
