(* ===== verification/IRC_Modes.thy ===== *)
theory IRC_Modes
  imports IRC_Message IRC_Casemap
begin

text \<open>
  Package \<open>irc\<close>, file \<open>modes.go\<close>: what ISUPPORT says about mode letters (\<open>ModeSet\<close>), the parser of a
  MODE line, the mode state of a channel and the user modes.

  Every \<open>map[byte]bool\<close> of the source is a Go map here too (key to \<^const>\<open>True\<close>), so that iteration
  over the keys followed by \<open>sortBytes\<close> is written as the code writes it.
\<close>

section \<open>Mode letters\<close>

datatype ModeKind = ModeUnknown | ModeList | ModeArgAlways | ModeArgSet | ModeFlag | ModePrefix

record ModeSet =
  Kind :: "(char, ModeKind) gomap"
  Prefix :: "(char, char) gomap"
  PrefixBySymbol :: "(char, char) gomap"
  PrefixOrder :: "char list"

definition chanmode_kinds :: "ModeKind list" where
  "chanmode_kinds = [ModeList, ModeArgAlways, ModeArgSet, ModeFlag]"

definition ParseCHANMODES :: "ModeSet \<Rightarrow> string \<Rightarrow> ModeSet" where
  "ParseCHANMODES ms v =
     ms\<lparr>Kind := fold (\<lambda>(part, kind) ks. fold (\<lambda>c. map_put c kind) part ks)
                   (zip (split_byte (CHR '','') v) chanmode_kinds) (Kind ms)\<rparr>"

definition add_prefix :: "char \<times> char \<Rightarrow> ModeSet \<Rightarrow> ModeSet" where
  "add_prefix p ms =
     (case p of (mode, symb) \<Rightarrow>
        ms\<lparr>Prefix := map_put mode symb (Prefix ms),
           PrefixBySymbol := map_put symb mode (PrefixBySymbol ms),
           Kind := map_put mode ModePrefix (Kind ms),
           PrefixOrder := PrefixOrder ms @ [mode]\<rparr>)"

definition ParsePREFIX :: "ModeSet \<Rightarrow> string \<Rightarrow> ModeSet" where
  "ParsePREFIX ms0 v =
     (let ms = ms0\<lparr>PrefixOrder := []\<rparr> in
      case (index_byte v (CHR ''(''), index_byte v (CHR '')'')) of
        (Some l, Some r) \<Rightarrow>
          if r \<le> l then ms
          else fold add_prefix (zip (drop (Suc l) (take r v)) (drop (Suc r) v)) ms
      | _ \<Rightarrow> ms)"

definition DefaultModeSet :: ModeSet where
  "DefaultModeSet =
     ParsePREFIX
       (ParseCHANMODES \<lparr>Kind = [], Prefix = [], PrefixBySymbol = [], PrefixOrder = []\<rparr>
          ''eIbq,k,flj,CFLMPQScgimnprstuz'')
       ''(ov)@+''"

definition Classify :: "ModeSet \<Rightarrow> char \<Rightarrow> ModeKind" where
  "Classify ms mode = map_get ModeUnknown (Kind ms) mode"

section \<open>Mode lines\<close>

record ModeChange =
  chSet :: bool
  chMode :: char
  chArg :: string

definition mode_needs_arg :: "ModeKind \<Rightarrow> bool \<Rightarrow> bool \<Rightarrow> bool" where
  "mode_needs_arg kind on args_left =
     (case kind of
        ModeList \<Rightarrow> True
      | ModeArgAlways \<Rightarrow> True
      | ModePrefix \<Rightarrow> True
      | ModeArgSet \<Rightarrow> on
      | ModeUnknown \<Rightarrow> on \<and> args_left
      | ModeFlag \<Rightarrow> False)"

text \<open>The loop over the mode string; the argument index is the list of arguments not yet used.\<close>

fun parse_mode_loop :: "ModeSet \<Rightarrow> bool \<Rightarrow> string list \<Rightarrow> string \<Rightarrow> ModeChange list" where
  "parse_mode_loop ms on args [] = []"
| "parse_mode_loop ms on args (c # cs) =
     (if c = CHR ''+'' then parse_mode_loop ms True args cs
      else if c = CHR ''-'' then parse_mode_loop ms False args cs
      else if mode_needs_arg (Classify ms c) on (args \<noteq> []) \<and> args \<noteq> []
      then \<lparr>chSet = on, chMode = c, chArg = hd args\<rparr> # parse_mode_loop ms on (tl args) cs
      else \<lparr>chSet = on, chMode = c, chArg = []\<rparr> # parse_mode_loop ms on args cs)"

definition ParseModeParams :: "ModeSet \<Rightarrow> string \<Rightarrow> string list \<Rightarrow> ModeChange list" where
  "ParseModeParams ms modestring args = parse_mode_loop ms True args modestring"

section \<open>Channel mode state\<close>

record ChannelModes =
  Flags :: "(char, bool) gomap"
  Args :: "(char, string) gomap"
  Lists :: "(char, (string, bool) gomap) gomap"
  Nicks :: "(string, (char, bool) gomap) gomap"

definition NewChannelModes :: ChannelModes where
  "NewChannelModes = \<lparr>Flags = [], Args = [], Lists = [], Nicks = []\<rparr>"

definition apply_prefix_mode :: "CaseMapping \<Rightarrow> ModeChange \<Rightarrow> ChannelModes \<Rightarrow> ChannelModes" where
  "apply_prefix_mode cmapping ch cm =
     (let nick = Canonical cmapping (chArg ch); modes = map_get [] (Nicks cm) nick in
      if nick = [] then cm
      else if chSet ch then cm\<lparr>Nicks := map_put nick (map_put (chMode ch) True modes) (Nicks cm)\<rparr>
      else if map_of (Nicks cm) nick = None then cm
      else let modes2 = map_del (chMode ch) modes in
        cm\<lparr>Nicks := if modes2 = [] then map_del nick (Nicks cm) else map_put nick modes2 (Nicks cm)\<rparr>)"

definition apply_change :: "ModeSet option \<Rightarrow> CaseMapping \<Rightarrow> ModeChange \<Rightarrow> ChannelModes \<Rightarrow> ChannelModes" where
  "apply_change ms cmapping ch cm =
     (case (case ms of None \<Rightarrow> ModeUnknown | Some s \<Rightarrow> Classify s (chMode ch)) of
        ModePrefix \<Rightarrow> apply_prefix_mode cmapping ch cm
      | ModeList \<Rightarrow>
          (let entries = map_get [] (Lists cm) (chMode ch) in
           cm\<lparr>Lists := map_put (chMode ch)
                (if chSet ch then map_put (chArg ch) True entries else map_del (chArg ch) entries)
                (Lists cm)\<rparr>)
      | ModeArgAlways \<Rightarrow>
          (if chSet ch
           then cm\<lparr>Args := map_put (chMode ch) (chArg ch) (Args cm), Flags := map_del (chMode ch) (Flags cm)\<rparr>
           else cm\<lparr>Args := map_del (chMode ch) (Args cm)\<rparr>)
      | ModeArgSet \<Rightarrow>
          (if chSet ch
           then cm\<lparr>Args := map_put (chMode ch) (chArg ch) (Args cm), Flags := map_del (chMode ch) (Flags cm)\<rparr>
           else cm\<lparr>Args := map_del (chMode ch) (Args cm)\<rparr>)
      | _ \<Rightarrow>
          (if chSet ch then cm\<lparr>Flags := map_put (chMode ch) True (Flags cm)\<rparr>
           else cm\<lparr>Flags := map_del (chMode ch) (Flags cm)\<rparr>))"

definition Apply :: "ModeSet option \<Rightarrow> CaseMapping \<Rightarrow> ModeChange list \<Rightarrow> ChannelModes \<Rightarrow> ChannelModes" where
  "Apply ms cmapping changes cm = fold (apply_change ms cmapping) changes cm"

definition ModeString :: "ChannelModes \<Rightarrow> string \<times> string list" where
  "ModeString cm =
     (let flags = sortBytes (map fst (Flags cm)); argModes = sortBytes (map fst (Args cm)) in
      (''+'' @ flags @ argModes, map (map_get [] (Args cm)) argModes))"

section \<open>User modes\<close>

fun apply_user_loop :: "bool \<Rightarrow> string \<Rightarrow> (char, bool) gomap \<Rightarrow> (char, bool) gomap" where
  "apply_user_loop on [] modes = modes"
| "apply_user_loop on (c # cs) modes =
     (if c = CHR ''+'' then apply_user_loop True cs modes
      else if c = CHR ''-'' then apply_user_loop False cs modes
      else if on then apply_user_loop on cs (map_put c True modes)
      else apply_user_loop on cs (map_del c modes))"

definition ApplyUserModes :: "(char, bool) gomap \<Rightarrow> string \<Rightarrow> (char, bool) gomap" where
  "ApplyUserModes modes modestring = apply_user_loop True modestring modes"

definition UserModeString :: "(char, bool) gomap \<Rightarrow> string" where
  "UserModeString modes = (if modes = [] then [] else ''+'' @ sortBytes (map fst modes))"

section \<open>Lemmas\<close>

text \<open>A Go map used as a set: distinct keys, every value \<^const>\<open>True\<close>.\<close>

definition wf_set :: "('k, bool) gomap \<Rightarrow> bool" where
  "wf_set m \<longleftrightarrow> wf_map m \<and> list_all (\<lambda>(k, b). b) m"

lemma wf_set_Nil [simp]: "wf_set []"
  by (simp add: wf_set_def)

lemma wf_set_put [simp, intro]: "wf_set m \<Longrightarrow> wf_set (map_put k True m)"
  by (simp add: wf_set_def list_all_put)

lemma wf_set_del [simp, intro]: "wf_set m \<Longrightarrow> wf_set (map_del k m)"
  by (simp add: wf_set_def list_all_del)

lemma wf_set_map_of: "wf_set m \<Longrightarrow> map_of m k = (if k \<in> fst ` set m then Some True else None)"
  by (auto simp: wf_set_def list_all_iff map_of_eq_None_iff map_of_eq_Some_wf)

lemma wf_set_get: "wf_set m \<Longrightarrow> map_get False m k \<longleftrightarrow> k \<in> fst ` set m"
  by (simp add: map_get_def wf_set_map_of)

lemma set_sortBytes [simp]: "set (sortBytes a) = set a"
  by (simp add: sortBytes_eq_sort)

lemma apply_user_loop_plain:
  "CHR ''+'' \<notin> set cs \<Longrightarrow> CHR ''-'' \<notin> set cs \<Longrightarrow>
   map_of (apply_user_loop True cs m) k = (if k \<in> set cs then Some True else map_of m k)"
  by (induction cs arbitrary: m) auto

lemma apply_user_loop_wf: "wf_set m \<Longrightarrow> wf_set (apply_user_loop b cs m)"
  by (induction cs arbitrary: b m) auto

text \<open>
  The invariant of a channel's mode state: distinct keys everywhere, flags and memberships are
  sets, and a nick is listed only while it holds at least one prefix mode, under a non-empty name.
\<close>

definition wf_modes :: "ChannelModes \<Rightarrow> bool" where
  "wf_modes cm \<longleftrightarrow>
     wf_set (Flags cm) \<and> wf_map (Args cm) \<and>
     wf_map (Lists cm) \<and> list_all (\<lambda>(c, es). wf_set es) (Lists cm) \<and>
     wf_map (Nicks cm) \<and> list_all (\<lambda>(n, ms). n \<noteq> [] \<and> ms \<noteq> [] \<and> wf_set ms) (Nicks cm)"

lemma wf_modes_get_nick: "wf_modes cm \<Longrightarrow> wf_set (map_get [] (Nicks cm) n)"
  by (auto simp: wf_modes_def map_get_def list_all_iff split: option.splits dest!: map_of_SomeD)

lemma wf_modes_get_list: "wf_modes cm \<Longrightarrow> wf_set (map_get [] (Lists cm) c)"
  by (auto simp: wf_modes_def map_get_def list_all_iff split: option.splits dest!: map_of_SomeD)

lemma wf_apply_prefix_mode: "wf_modes cm \<Longrightarrow> wf_modes (apply_prefix_mode c ch cm)"
  using wf_modes_get_nick [of cm "Canonical c (chArg ch)"]
  by (auto simp: apply_prefix_mode_def wf_modes_def Let_def intro!: list_all_put list_all_del)

lemma wf_apply_change: "wf_modes cm \<Longrightarrow> wf_modes (apply_change ms c ch cm)"
  using wf_modes_get_list [of cm "chMode ch"] wf_apply_prefix_mode [of cm c ch]
  by (auto simp: apply_change_def wf_modes_def Let_def intro!: list_all_put split: ModeKind.split)

lemma wf_Apply: "wf_modes cm \<Longrightarrow> wf_modes (Apply ms c changes cm)"
  by (induction changes arbitrary: cm) (auto simp: Apply_def wf_apply_change)

lemma wf_NewChannelModes [simp]: "wf_modes NewChannelModes"
  by (simp add: wf_modes_def NewChannelModes_def)

text \<open>The abstract view of the prefix modes: which nick holds which mode letter.\<close>

definition prefix_view :: "ChannelModes \<Rightarrow> (string \<times> char) set" where
  "prefix_view cm = {(n, m). map_get False (map_get [] (Nicks cm) n) m}"

definition membership_spec ::
  "ModeSet option \<Rightarrow> CaseMapping \<Rightarrow> ModeChange \<Rightarrow> (string \<times> char) set \<Rightarrow> (string \<times> char) set" where
  "membership_spec ms c ch R =
     (if ms \<noteq> None \<and> Classify (the ms) (chMode ch) = ModePrefix \<and> chArg ch \<noteq> []
      then if chSet ch then insert (Canonical c (chArg ch), chMode ch) R
           else R - {(Canonical c (chArg ch), chMode ch)}
      else R)"

lemma prefix_view_set:
  "prefix_view (cm\<lparr>Nicks := map_put n (map_put m True (map_get [] (Nicks cm) n)) (Nicks cm)\<rparr>) =
   insert (n, m) (prefix_view cm)"
  by (auto simp: prefix_view_def split: if_splits)

lemma prefix_view_unset:
  assumes "map_of (Nicks cm) n \<noteq> None"
  shows "prefix_view (cm\<lparr>Nicks := if map_del m (map_get [] (Nicks cm) n) = [] then map_del n (Nicks cm)
           else map_put n (map_del m (map_get [] (Nicks cm) n)) (Nicks cm)\<rparr>) = prefix_view cm - {(n, m)}"
proof (cases "map_del m (map_get [] (Nicks cm) n) = []")
  case True
  then have "map_get False (map_get [] (Nicks cm) n) k \<Longrightarrow> k = m" for k
    using map_get_del [of False m "map_get [] (Nicks cm) n" k] by (auto split: if_splits)
  with True show ?thesis by (auto simp: prefix_view_def split: if_splits)
next
  case False
  then show ?thesis by (auto simp: prefix_view_def split: if_splits)
qed

lemma prefix_view_absent: "map_of (Nicks cm) n = None \<Longrightarrow> (n, m) \<notin> prefix_view cm"
  by (simp add: prefix_view_def map_get_def)

lemma prefix_view_frame [simp]:
  "prefix_view (cm\<lparr>Flags := f\<rparr>) = prefix_view cm" "prefix_view (cm\<lparr>Args := a\<rparr>) = prefix_view cm"
  "prefix_view (cm\<lparr>Lists := l\<rparr>) = prefix_view cm"
  by (simp_all add: prefix_view_def)

lemma prefix_view_apply_prefix:
  "prefix_view (apply_prefix_mode c ch cm) =
   (if chArg ch = [] then prefix_view cm
    else if chSet ch then insert (Canonical c (chArg ch), chMode ch) (prefix_view cm)
    else prefix_view cm - {(Canonical c (chArg ch), chMode ch)})"
  by (auto simp: apply_prefix_mode_def Let_def prefix_view_set prefix_view_unset [simplified]
      dest: prefix_view_absent)

lemma prefix_view_apply_change:
  "prefix_view (apply_change ms c ch cm) = membership_spec ms c ch (prefix_view cm)"
  by (cases ms) (auto simp: apply_change_def membership_spec_def prefix_view_apply_prefix Let_def
      split: ModeKind.split)

section \<open>Properties\<close>

text \<open>
  C8. The channel mode state refines the set of pairs (nick, prefix mode): applying a parsed MODE
  line to it does to that set what the line says, one change after the other, and keeps the
  state well formed (distinct keys, no nick listed without a mode).
\<close>

theorem Apply_refines_membership:
  assumes "wf_modes cm"
  shows "wf_modes (Apply ms c changes cm) \<and>
    prefix_view (Apply ms c changes cm) = fold (membership_spec ms c) changes (prefix_view cm)"
proof -
  have "prefix_view (fold (apply_change ms c) changes cm) =
      fold (membership_spec ms c) changes (prefix_view cm)" for cm
    by (induction changes arbitrary: cm) (auto simp: prefix_view_apply_change)
  then show ?thesis using wf_Apply [OF assms] by (simp add: Apply_def)
qed

theorem Apply_refines_membership_witness:
  "wf_modes NewChannelModes \<and>
   prefix_view (Apply (Some DefaultModeSet) CaseRFC1459
     (ParseModeParams DefaultModeSet ''+o-v'' [''Al'', ''Bo'']) NewChannelModes) =
   fold (membership_spec (Some DefaultModeSet) CaseRFC1459)
     (ParseModeParams DefaultModeSet ''+o-v'' [''Al'', ''Bo'']) (prefix_view NewChannelModes)"
  using Apply_refines_membership [OF wf_NewChannelModes] by simp

text \<open>A display of modes that a client parses back: flags are classified as flags, the others take arguments.\<close>

definition displayable :: "ModeSet \<Rightarrow> ChannelModes \<Rightarrow> bool" where
  "displayable ms cm \<longleftrightarrow>
     wf_set (Flags cm) \<and> wf_map (Args cm) \<and>
     list_all (\<lambda>(m, b). Classify ms m = ModeFlag \<and> m \<noteq> CHR ''+'' \<and> m \<noteq> CHR ''-'') (Flags cm) \<and>
     list_all (\<lambda>(m, a). Classify ms m \<in> {ModeArgAlways, ModeArgSet} \<and> m \<noteq> CHR ''+'' \<and> m \<noteq> CHR ''-'')
       (Args cm)"

lemma parse_mode_loop_flags:
  "list_all (\<lambda>m. Classify ms m = ModeFlag \<and> m \<noteq> CHR ''+'' \<and> m \<noteq> CHR ''-'') fs \<Longrightarrow>
   parse_mode_loop ms True args (fs @ rest) =
   map (\<lambda>m. \<lparr>chSet = True, chMode = m, chArg = []\<rparr>) fs @ parse_mode_loop ms True args rest"
  by (induction fs) (auto simp: mode_needs_arg_def)

lemma parse_mode_loop_args:
  "list_all (\<lambda>m. Classify ms m \<in> {ModeArgAlways, ModeArgSet} \<and> m \<noteq> CHR ''+'' \<and> m \<noteq> CHR ''-'') ks \<Longrightarrow>
   parse_mode_loop ms True (map f ks) ks = map (\<lambda>m. \<lparr>chSet = True, chMode = m, chArg = f m\<rparr>) ks"
  by (induction ks) (auto simp: mode_needs_arg_def)

lemma Apply_flags:
  "list_all (\<lambda>m. Classify ms m = ModeFlag) fs \<Longrightarrow>
   Apply (Some ms) c (map (\<lambda>m. \<lparr>chSet = True, chMode = m, chArg = []\<rparr>) fs) cm =
   cm\<lparr>Flags := fold (\<lambda>m. map_put m True) fs (Flags cm)\<rparr>"
  by (induction fs arbitrary: cm) (auto simp: Apply_def apply_change_def)

lemma Apply_args:
  assumes "list_all (\<lambda>m. Classify ms m \<in> {ModeArgAlways, ModeArgSet}) ks"
  shows "Apply (Some ms) c (map (\<lambda>m. \<lparr>chSet = True, chMode = m, chArg = f m\<rparr>) ks) cm =
   cm\<lparr>Args := fold (\<lambda>m. map_put m (f m)) ks (Args cm), Flags := fold map_del ks (Flags cm)\<rparr>"
  using assms by (induction ks arbitrary: cm) (auto simp: Apply_def apply_change_def)

lemma Apply_append: "Apply ms c (xs @ ys) cm = Apply ms c ys (Apply ms c xs cm)"
  by (simp add: Apply_def)

lemma map_of_fold_del:
  "map_of (fold map_del ks m) j = (if j \<in> set ks then None else map_of m j)"
  by (induction ks arbitrary: m) auto

lemma ModeString_displayable:
  assumes d: "displayable ms cm"
    and "ModeString cm = (modestring, args)"
    and "cm' = Apply (Some ms) c (ParseModeParams ms modestring args) NewChannelModes"
  shows "map_of (Flags cm') = map_of (Flags cm) \<and> map_of (Args cm') = map_of (Args cm)
    \<and> Lists cm' = [] \<and> Nicks cm' = []"
proof -
  let ?fs = "sortBytes (map fst (Flags cm))"
  let ?ks = "sortBytes (map fst (Args cm))"
  let ?f = "map_get [] (Args cm)"
  have fs: "list_all (\<lambda>m. Classify ms m = ModeFlag \<and> m \<noteq> CHR ''+'' \<and> m \<noteq> CHR ''-'') ?fs"
    and ks: "list_all (\<lambda>m. Classify ms m \<in> {ModeArgAlways, ModeArgSet} \<and> m \<noteq> CHR ''+'' \<and> m \<noteq> CHR ''-'') ?ks"
    using d by (auto simp: displayable_def list_all_iff)
  have disj: "m \<notin> set ?ks" if "m \<in> set ?fs" for m
  proof
    assume "m \<in> set ?ks"
    then show False using fs ks that unfolding list_all_iff by fastforce
  qed
  have "ParseModeParams ms modestring args =
      map (\<lambda>m. \<lparr>chSet = True, chMode = m, chArg = []\<rparr>) ?fs @
      map (\<lambda>m. \<lparr>chSet = True, chMode = m, chArg = ?f m\<rparr>) ?ks"
    using assms(2) parse_mode_loop_flags [OF fs] parse_mode_loop_args [OF ks]
    by (auto simp: ModeString_def ParseModeParams_def Let_def)
  moreover have "list_all (\<lambda>m. Classify ms m = ModeFlag) ?fs"
    "list_all (\<lambda>m. Classify ms m \<in> {ModeArgAlways, ModeArgSet}) ?ks"
    using fs ks by (auto simp: list_all_iff)
  ultimately have cm': "cm' = NewChannelModes
      \<lparr>Flags := fold map_del ?ks (fold (\<lambda>m. map_put m True) ?fs []),
       Args := fold (\<lambda>m. map_put m (?f m)) ?ks []\<rparr>"
    using assms(3) by (simp add: Apply_append Apply_flags Apply_args NewChannelModes_def)
  have "map_of (Flags cm') j = map_of (Flags cm) j" for j
    using d disj by (auto simp: cm' map_of_fold_del map_of_fold_put displayable_def wf_set_map_of)
  moreover have "map_of (Args cm') j = map_of (Args cm) j" for j
    by (cases "j \<in> fst ` set (Args cm)")
      (auto simp: cm' map_of_fold_put map_of_get map_of_eq_None_iff [THEN iffD2])
  ultimately show ?thesis by (auto simp: cm' NewChannelModes_def)
qed

text \<open>What the changes of modes that the server announced build up is displayable.\<close>

definition known_change :: "ModeSet \<Rightarrow> ModeChange \<Rightarrow> bool" where
  "known_change ms ch \<longleftrightarrow> Classify ms (chMode ch) \<noteq> ModeUnknown \<and> chMode ch \<noteq> CHR ''+'' \<and> chMode ch \<noteq> CHR ''-''"

lemma displayable_change:
  assumes "displayable ms cm" and "known_change ms ch"
  shows "displayable ms (apply_change (Some ms) c ch cm)"
  using assms
  by (cases "Classify ms (chMode ch)")
    (auto simp: displayable_def known_change_def apply_change_def apply_prefix_mode_def Let_def
      intro!: list_all_put list_all_del)

lemma displayable_Apply:
  "list_all (known_change ms) changes \<Longrightarrow> displayable ms cm \<Longrightarrow> displayable ms (Apply (Some ms) c changes cm)"
  by (induction changes arbitrary: cm) (simp_all add: Apply_def displayable_change)

text \<open>
  C24. Round trip of \<open>ModeString\<close>: for a channel whose modes are what MODE changes of letters announced by the server made of
  no modes, parsing the mode string and arguments that the bouncer shows, and applying them to an empty
  state, restores every flag and every argument, with no list or membership entry added. (A letter that
  the server did not announce is kept as a flag, and takes the first argument when it is parsed again.)
\<close>

theorem ModeString_roundtrip:
  assumes "list_all (known_change ms) changes" and "cm = Apply (Some ms) c' changes NewChannelModes"
    and "ModeString cm = (modestring, args)"
    and "cm' = Apply (Some ms) c (ParseModeParams ms modestring args) NewChannelModes"
  shows "map_of (Flags cm') = map_of (Flags cm) \<and> map_of (Args cm') = map_of (Args cm)
    \<and> Lists cm' = [] \<and> Nicks cm' = []"
proof -
  have "displayable ms NewChannelModes" by (simp add: displayable_def NewChannelModes_def)
  then have "displayable ms cm" using displayable_Apply [OF assms(1)] assms(2) by blast
  then show ?thesis by (rule ModeString_displayable [OF _ assms(3,4)])
qed

theorem ModeString_roundtrip_witness:
  "let cm' = Apply (Some DefaultModeSet) CaseRFC1459
               (ParseModeParams DefaultModeSet ''+ntkl'' [''key'', ''50'']) NewChannelModes
   in map_of (Flags cm') = [CHR ''t'' \<mapsto> True, CHR ''n'' \<mapsto> True] \<and>
      map_of (Args cm') = [CHR ''l'' \<mapsto> ''50'', CHR ''k'' \<mapsto> ''key'']"
proof -
  let ?changes = "ParseModeParams DefaultModeSet ''+tmo-m+lnk'' [''bob'', ''50'', ''key'']"
  let ?cm = "\<lparr>Flags = [(CHR ''t'', True), (CHR ''n'', True)], Args = [(CHR ''l'', ''50''), (CHR ''k'', ''key'')],
    Lists = [], Nicks = [(''bob'', [(CHR ''o'', True)])]\<rparr> :: ChannelModes"
  have k: "list_all (known_change DefaultModeSet) ?changes" by code_simp
  have a: "?cm = Apply (Some DefaultModeSet) CaseRFC1459 ?changes NewChannelModes" by code_simp
  have m: "ModeString ?cm = (''+ntkl'', [''key'', ''50''])" by code_simp
  show ?thesis using ModeString_roundtrip [OF k a m refl, of CaseRFC1459] by (simp add: Let_def fun_eq_iff)
qed

lemma unknown_mode_takes_argument:
  "let cm = Apply (Some DefaultModeSet) CaseRFC1459 (ParseModeParams DefaultModeSet ''+kZ'' [''key'']) NewChannelModes
   in ModeString cm = (''+Zk'', [''key'']) \<and>
      Args (Apply (Some DefaultModeSet) CaseRFC1459 (ParseModeParams DefaultModeSet ''+Zk'' [''key'']) NewChannelModes) \<noteq> Args cm"
  by code_simp

text \<open>
  C25. Round trip of the user modes: applying \<open>UserModeString\<close> to no modes gives the modes back, and
  \<open>ApplyUserModes\<close> keeps the mode map a set.
\<close>

theorem UserModeString_roundtrip:
  assumes "wf_set modes" and "map_of modes (CHR ''+'') = None" and "map_of modes (CHR ''-'') = None"
  shows "map_of (ApplyUserModes [] (UserModeString modes)) = map_of modes
    \<and> wf_set (ApplyUserModes modes modestring)"
proof -
  have "map_of (ApplyUserModes [] (UserModeString modes)) k = map_of modes k" for k
  proof (cases "modes = []")
    case True
    then show ?thesis by (simp add: ApplyUserModes_def UserModeString_def)
  next
    case False
    then have "ApplyUserModes [] (UserModeString modes) = apply_user_loop True (sortBytes (map fst modes)) []"
      by (simp add: ApplyUserModes_def UserModeString_def)
    moreover have "CHR ''+'' \<notin> set (sortBytes (map fst modes))" "CHR ''-'' \<notin> set (sortBytes (map fst modes))"
      using assms(2,3) by (auto simp: map_of_eq_None_iff)
    ultimately show ?thesis
      using wf_set_map_of [OF assms(1), of k] by (simp add: apply_user_loop_plain)
  qed
  then show ?thesis using apply_user_loop_wf [OF assms(1)] by (auto simp: ApplyUserModes_def)
qed

theorem UserModeString_roundtrip_witness:
  "map_of (ApplyUserModes [] (UserModeString [(CHR ''w'', True), (CHR ''i'', True)])) =
   map_of [(CHR ''w'', True), (CHR ''i'', True)]"
  using UserModeString_roundtrip [of "[(CHR ''w'', True), (CHR ''i'', True)]"]
  by (simp add: wf_set_def)

end
