(* ===== verification/IRC_Isupport.thy ===== *)
theory IRC_Isupport
  imports IRC_Modes
begin

text \<open>
  Package \<open>irc\<close>, file \<open>isupport.go\<close>: the 005 tokens an uplink sends, and the 005 lines the bouncer
  builds for a client that attaches. The pointer to the mode set is never nil after
  \<open>NewISUPPORT\<close>, so the record holds the mode set itself.
\<close>

section \<open>Tokens\<close>

record ISUPPORT =
  isRaw :: "(string, string) gomap"
  isCaseMapping :: CaseMapping
  isModes :: ModeSet
  isWHOX :: bool
  isUTF8Only :: bool
  isPrefix :: string
  isChanModes :: string

definition NewISUPPORT :: ISUPPORT where
  "NewISUPPORT =
     \<lparr>isRaw = [], isCaseMapping = CaseRFC1459, isModes = DefaultModeSet, isWHOX = False,
      isUTF8Only = False, isPrefix = [], isChanModes = []\<rparr>"

definition isupportTrailing :: string where
  "isupportTrailing = ''are supported by this server''"

definition splitKV :: "string \<Rightarrow> string \<times> string \<times> bool" where
  "splitKV p = (case index_byte p (CHR ''='') of
                  None \<Rightarrow> (p, [], False)
                | Some eq \<Rightarrow> (take eq p, drop (Suc eq) p, True))"

definition apply_token :: "ISUPPORT \<Rightarrow> string \<Rightarrow> ISUPPORT" where
  "apply_token is0 p =
     (case splitKV p of (key, val, _) \<Rightarrow>
        let is = is0\<lparr>isRaw := map_put key val (isRaw is0)\<rparr> in
        if key = ''CASEMAPPING'' then is\<lparr>isCaseMapping := ParseCaseMapping val\<rparr>
        else if key = ''CHANMODES'' then
          is\<lparr>isChanModes := val, isModes := ParseCHANMODES (isModes is) val\<rparr>
        else if key = ''PREFIX'' then
          is\<lparr>isPrefix := val, isModes := ParsePREFIX (isModes is) val\<rparr>
        else if key = ''WHOX'' then is\<lparr>isWHOX := True\<rparr>
        else if key = ''UTF8ONLY'' then is\<lparr>isUTF8Only := True\<rparr>
        else is)"

definition is_isupport_trailing :: "string \<Rightarrow> bool" where
  "is_isupport_trailing p \<longleftrightarrow>
     p = ''are supported by this server'' \<or> p = ''is supported by this server''"

text \<open>The loop over the parameters after the nick; the last one may be the human text.\<close>

fun parse005_loop :: "ISUPPORT \<Rightarrow> string list \<Rightarrow> ISUPPORT" where
  "parse005_loop is [] = is"
| "parse005_loop is [p] = (if is_isupport_trailing p then is else apply_token is p)"
| "parse005_loop is (p # q # ps) = parse005_loop (apply_token is p) (q # ps)"

definition Parse005 :: "ISUPPORT \<Rightarrow> string list \<Rightarrow> ISUPPORT" where
  "Parse005 is params = parse005_loop is (drop 1 params)"

definition format_token :: "(string, string) gomap \<Rightarrow> string \<Rightarrow> string" where
  "format_token raw k = (let v = map_get [] raw k in if v = [] then k else k @ CHR ''='' # v)"

definition Tokens :: "(string, string) gomap \<Rightarrow> string list" where
  "Tokens raw = map (format_token raw) (sort (map fst raw))"

text \<open>\<open>CloneRaw\<close>: a copy of the tokens with overrides; an empty value deletes.\<close>

definition CloneRaw :: "ISUPPORT \<Rightarrow> (string, string) gomap \<Rightarrow> (string, string) gomap" where
  "CloneRaw is overrides =
     fold (\<lambda>(k, v) out. if v = [] then map_del k out else map_put k v out) overrides (isRaw is)"

section \<open>The 005 burst\<close>

definition rpl005_message :: "string \<Rightarrow> string list \<Rightarrow> message" where
  "rpl005_message nick batch = mk_message [] ''005'' (nick # batch @ [isupportTrailing])"

text \<open>The loop over the tokens with its open batch; a full batch is flushed before the token.\<close>

fun rpl005_loop :: "string \<Rightarrow> int \<Rightarrow> int \<Rightarrow> string list \<Rightarrow> int \<Rightarrow> string list \<Rightarrow> message list" where
  "rpl005_loop nick maxLen prefixLen batch batchLen [] =
     (if batch = [] then [] else [rpl005_message nick batch])"
| "rpl005_loop nick maxLen prefixLen batch batchLen (tok # toks) =
     (let need = int (length tok) + 1 in
      if batch \<noteq> [] \<and> batchLen + need > maxLen
      then rpl005_message nick batch #
           rpl005_loop nick maxLen prefixLen [tok] (prefixLen + need) toks
      else rpl005_loop nick maxLen prefixLen (batch @ [tok]) (batchLen + need) toks)"

definition RPL005 :: "string \<Rightarrow> (string, string) gomap \<Rightarrow> int \<Rightarrow> message list" where
  "RPL005 nick raw maxLen0 =
     (let maxLen = (if maxLen0 \<le> 0 then 500 else maxLen0);
          tokens = Tokens raw;
          prefixLen = int (length ''005 '') + int (length nick) + 1 + int (length isupportTrailing) + 2
      in if tokens = [] then [mk_message [] ''005'' [nick, isupportTrailing]]
         else rpl005_loop nick maxLen prefixLen [] prefixLen tokens)"

section \<open>Lemmas\<close>

lemma splitKV_format_token:
  "CHR ''='' \<notin> set k \<Longrightarrow> fst (splitKV (format_token raw k)) = k \<and>
   fst (snd (splitKV (format_token raw k))) = map_get [] raw k"
  by (auto simp: splitKV_def format_token_def Let_def index_byte_append_notin)

lemma isRaw_apply_token:
  "isRaw (apply_token is p) = map_put (fst (splitKV p)) (fst (snd (splitKV p))) (isRaw is)"
  by (simp add: apply_token_def Let_def split: prod.split)

lemma parse005_loop_trailing:
  "parse005_loop is (toks @ [isupportTrailing]) = foldl apply_token is toks"
proof (induction toks arbitrary: "is")
  case Nil
  then show ?case by (simp add: is_isupport_trailing_def isupportTrailing_def)
next
  case (Cons t ts)
  then show ?case by (cases ts) auto
qed

lemma Parse005_rpl005:
  "Parse005 is (Params (rpl005_message nick batch)) = foldl apply_token is batch"
  by (simp add: Parse005_def rpl005_message_def parse005_loop_trailing)

definition feed005 :: "ISUPPORT \<Rightarrow> message list \<Rightarrow> ISUPPORT" where
  "feed005 is msgs = foldl (\<lambda>is m. Parse005 is (Params m)) is msgs"

lemma feed005_loop:
  "feed005 is (rpl005_loop nick maxLen prefixLen batch batchLen toks) =
   foldl apply_token is (batch @ toks)"
proof (induction toks arbitrary: "is" batch batchLen)
  case Nil
  then show ?case by (auto simp: feed005_def Parse005_rpl005)
next
  case (Cons t ts)
  then show ?case by (auto simp: feed005_def Parse005_rpl005 Let_def)
qed

lemma isRaw_foldl_tokens:
  "(\<And>k. k \<in> set ks \<Longrightarrow> CHR ''='' \<notin> set k) \<Longrightarrow>
   isRaw (foldl apply_token is (map (format_token raw) ks)) =
   fold (\<lambda>k. map_put k (map_get [] raw k)) ks (isRaw is)"
  by (induction ks arbitrary: "is") (auto simp: isRaw_apply_token splitKV_format_token)

lemma length_encode_params:
  "ps \<noteq> [] \<Longrightarrow> length (encode_params ps) = length ps + 1 + sum_list (map length ps)"
  by (induction ps rule: encode_params.induct) auto

lemma length_Encode_rpl005:
  "length (Encode ((rpl005_message nick batch)\<lparr>Source := src\<rparr>)) =
   (if src = [] then 0 else length src + 2) + 6 + length nick + length isupportTrailing +
   (\<Sum>t\<leftarrow>batch. length t + 1)"
  by (simp add: Encode_def rpl005_message_def mk_message_def length_encode_params sum_list_Suc)

definition batch_len :: "int \<Rightarrow> string list \<Rightarrow> int" where
  "batch_len prefixLen batch = prefixLen + (\<Sum>t\<leftarrow>batch. int (length t) + 1)"

lemma rpl005_loop_batches:
  assumes "m \<in> set (rpl005_loop nick maxLen prefixLen batch batchLen toks)"
    and "batchLen = batch_len prefixLen batch"
    and "length batch \<le> 1 \<or> batchLen \<le> maxLen"
  shows "\<exists>b. m = rpl005_message nick b \<and> b \<noteq> [] \<and>
    (length b = 1 \<or> batch_len prefixLen b \<le> maxLen)"
  using assms
proof (induction toks arbitrary: batch batchLen)
  case Nil
  then show ?case by (auto split: if_splits simp: le_Suc_eq)
next
  case (Cons t ts)
  show ?case
  proof (cases "batch \<noteq> [] \<and> batchLen + (int (length t) + 1) > maxLen")
    case True
    then consider "m = rpl005_message nick batch"
      | "m \<in> set (rpl005_loop nick maxLen prefixLen [t] (prefixLen + (int (length t) + 1)) ts)"
      using Cons.prems(1) by (auto simp: Let_def)
    then show ?thesis
    proof cases
      case 1
      then show ?thesis using True Cons.prems by (cases batch) auto
    next
      case 2
      then show ?thesis by (rule Cons.IH) (auto simp: batch_len_def)
    qed
  next
    case False
    then have "m \<in> set (rpl005_loop nick maxLen prefixLen (batch @ [t]) (batchLen + (int (length t) + 1)) ts)"
      using Cons.prems(1) by (auto simp: Let_def split: if_splits)
    then show ?thesis
      by (rule Cons.IH) (use False Cons.prems(2) in \<open>auto simp: batch_len_def\<close>)
  qed
qed

section \<open>Properties\<close>

text \<open>
  C26. Round trip of the ISUPPORT burst: the 005 lines that \<open>RPL005\<close> builds for a client, parsed back
  one after the other, give exactly the token map they were built from, however the tokens were
  split over lines.
\<close>

theorem RPL005_roundtrip:
  assumes "\<And>k. map_of raw k \<noteq> None \<Longrightarrow> CHR ''='' \<notin> set k"
  shows "map_of (isRaw (feed005 (NewISUPPORT\<lparr>isRaw := []\<rparr>) (RPL005 nick raw maxLen))) = map_of raw"
proof (cases "raw = []")
  case True
  then show ?thesis
    by (simp add: RPL005_def Tokens_def feed005_def Parse005_def is_isupport_trailing_def
        isupportTrailing_def)
next
  case False
  let ?ks = "sort (map fst raw)"
  have ks: "CHR ''='' \<notin> set k" if "k \<in> set ?ks" for k
    using assms [of k] that by (auto simp: map_of_eq_None_iff)
  have "set ?ks \<noteq> {}" using False by simp
  then have ne: "Tokens raw \<noteq> []" by (auto simp: Tokens_def simp del: set_sort)
  have "isRaw (feed005 (NewISUPPORT\<lparr>isRaw := []\<rparr>) (RPL005 nick raw maxLen)) =
      fold (\<lambda>k. map_put k (map_get [] raw k)) ?ks []"
    using ne isRaw_foldl_tokens [of ?ks] ks
    by (simp add: RPL005_def Let_def feed005_loop) (simp add: Tokens_def)
  moreover have "map_of (fold (\<lambda>k. map_put k (map_get [] raw k)) ?ks []) j = map_of raw j" for j
    by (cases "j \<in> fst ` set raw")
      (auto simp: map_of_fold_put map_of_get map_of_eq_None_iff [THEN iffD2])
  ultimately show ?thesis by auto
qed

theorem RPL005_roundtrip_witness:
  "map_of (isRaw (feed005 (NewISUPPORT\<lparr>isRaw := []\<rparr>)
     (RPL005 ''n'' [(''WHOX'', []), (''PREFIX'', ''(ov)@+''), (''NETWORK'', ''a=b'')] 60))) =
   map_of [(''WHOX'', []), (''PREFIX'', ''(ov)@+''), (''NETWORK'', ''a=b'')]"
  by (rule RPL005_roundtrip) (auto split: if_splits)

text \<open>
  C27. Line length of the burst: every 005 line that \<open>RPL005\<close> builds stays below \<open>maxLen\<close> bytes when
  encoded, as long as it carries more than one token; a single token is never split.
\<close>

theorem RPL005_line_length:
  assumes "m \<in> set (RPL005 nick raw maxLen)" and "maxLen > 0" and "length (Params m) > 3"
  shows "int (length (Encode m)) < maxLen"
proof -
  let ?p = "int (length ''005 '') + int (length nick) + 1 + int (length isupportTrailing) + 2"
  have "Tokens raw \<noteq> []" using assms by (auto simp: RPL005_def Let_def split: if_splits)
  then have "m \<in> set (rpl005_loop nick maxLen ?p [] ?p (Tokens raw))"
    using assms(1,2) by (simp add: RPL005_def Let_def)
  then obtain b where b: "m = rpl005_message nick b" "length b = 1 \<or> batch_len ?p b \<le> maxLen"
    using rpl005_loop_batches by (fastforce simp: batch_len_def)
  have "batch_len ?p b \<le> maxLen" using b assms(3) by (auto simp: rpl005_message_def)
  moreover have "m = (rpl005_message nick b)\<lparr>Source := []\<rparr>"
    by (simp add: b(1) rpl005_message_def mk_message_def)
  then have "length (Encode m) = 6 + length nick + length isupportTrailing + (\<Sum>t\<leftarrow>b. length t + 1)"
    using length_Encode_rpl005 [where nick = nick and batch = b and src = "[]"] by simp
  moreover have "int (\<Sum>t\<leftarrow>b. length t + 1) = (\<Sum>t\<leftarrow>b. int (length t) + 1)"
    by (induction b) auto
  ultimately show ?thesis by (simp add: batch_len_def)
qed

theorem RPL005_line_length_witness:
  "length (RPL005 ''n'' [(''A'', ''1''), (''B'', ''2''), (''C'', ''3'')] 45) = 2 \<and>
   int (length (Encode (hd (RPL005 ''n'' [(''A'', ''1''), (''B'', ''2''), (''C'', ''3'')] 45)))) < 45"
proof -
  let ?ms = "RPL005 ''n'' [(''A'', ''1''), (''B'', ''2''), (''C'', ''3'')] 45"
  have eq: "length ?ms = 2 \<and> hd ?ms \<in> set ?ms \<and> length (Params (hd ?ms)) > 3" by code_simp
  then show ?thesis using RPL005_line_length [of "hd ?ms" "''n''" "[(''A'', ''1''), (''B'', ''2''), (''C'', ''3'')]" 45] by simp
qed

end
