(* ===== verification/Connio.thy ===== *)
theory Connio
  imports Go_Prelude IRC_Message
begin

text \<open>
  Line framing on a byte stream (\<open>src/internal/connio/conn.go\<close>). A reader is what is still to come:
  the bytes and the error that the stream ends with. A read returns its result and the bytes left.
\<close>

datatype io_error = EOF | IOError string

datatype read_error = ErrLineTooLong | ReadFailed io_error

definition trim_right_crlf :: "string \<Rightarrow> string" where
  "trim_right_crlf s = rev (dropWhile (\<lambda>c. c = CR \<or> c = LF) (rev s))"

fun drainToNewline :: "io_error \<Rightarrow> string \<Rightarrow> io_error option \<times> string" where
  "drainToNewline fin [] = (Some fin, [])"
| "drainToNewline fin (b # bs) = (if b = LF then (None, bs) else drainToNewline fin bs)"

fun read_limited_loop :: "int \<Rightarrow> io_error \<Rightarrow> string \<Rightarrow> string \<Rightarrow> (read_error + string) \<times> string" where
  "read_limited_loop mx fin buf [] =
     ((if length buf > 0 \<and> fin = EOF then Inr (trim_right_crlf buf) else Inl (ReadFailed fin)), [])"
| "read_limited_loop mx fin buf (b # bs) =
     (let buf1 = buf @ [b]
      in if b = LF then (Inr (trim_right_crlf buf1), bs)
         else if int (length buf1) \<ge> mx
         then (case drainToNewline fin bs of
                 (err, rest) \<Rightarrow>
                   (case err of
                      Some e \<Rightarrow> (if e \<noteq> EOF then Inl (ReadFailed e) else Inl ErrLineTooLong, rest)
                    | None \<Rightarrow> (Inl ErrLineTooLong, rest)))
         else read_limited_loop mx fin buf1 bs)"

definition ReadLimitedLine :: "int \<Rightarrow> io_error \<Rightarrow> string \<Rightarrow> (read_error + string) \<times> string" where
  "ReadLimitedLine mx fin bs =
     read_limited_loop (if mx \<le> 0 then int MaxServerLine else mx) fin [] bs"

definition conn_WriteLine :: "string \<Rightarrow> string" where
  "conn_WriteLine line = (if \<not> has_suffix line [CR, LF] then line @ [CR, LF] else line)"

section \<open>Framing\<close>

lemma drain_line: "LF \<notin> set pre \<Longrightarrow> drainToNewline fin (pre @ LF # rest) = (None, rest)"
  by (induction pre) auto

lemma read_limited_line:
  assumes "LF \<notin> set pre" and "int (length buf) < mx"
  shows "read_limited_loop mx fin buf (pre @ LF # rest) =
    (if int (length buf + length pre) < mx then (Inr (trim_right_crlf (buf @ pre @ [LF])), rest)
     else (Inl ErrLineTooLong, rest))"
  using assms
proof (induction pre arbitrary: buf)
  case Nil
  then show ?case by simp
next
  case (Cons b pre)
  show ?case
  proof (cases "int (length (buf @ [b])) \<ge> mx")
    case True
    then show ?thesis using Cons.prems by (auto simp: drain_line Let_def)
  next
    case False
    then show ?thesis using Cons.IH [of "buf @ [b]"] Cons.prems by (auto simp: Let_def)
  qed
qed

lemma trim_right_crlf_line: "trim_right_crlf (l @ [LF]) = trim_right_crlf l"
  by (simp add: trim_right_crlf_def)

lemma trim_right_crlf_id: "l = [] \<or> last l \<noteq> CR \<and> last l \<noteq> LF \<Longrightarrow> trim_right_crlf (l @ [CR]) = l"
  by (cases l rule: rev_cases) (auto simp: trim_right_crlf_def)

text \<open>
  C15. Framing of a line and resynchronisation: on a stream that starts with bytes up to a newline,
  a read consumes exactly those bytes and the newline, whatever their number. It returns them
  without trailing CR and LF when the line with its newline fits into the limit, and the error for
  an overlong line otherwise, so that the line after an overlong one is read from its first byte.
\<close>

theorem ReadLimitedLine_frame:
  assumes "LF \<notin> set pre" and "mx > 0"
  shows "ReadLimitedLine mx fin (pre @ LF # rest) =
    (if int (length pre) < mx then (Inr (trim_right_crlf pre), rest) else (Inl ErrLineTooLong, rest))"
  using read_limited_line [OF assms(1), of "[]" mx fin rest] assms(2)
  by (simp add: ReadLimitedLine_def trim_right_crlf_line)

theorem ReadLimitedLine_frame_witness:
  "ReadLimitedLine 5 EOF (''toolong'' @ LF # ''ok'' @ [CR, LF]) = (Inl ErrLineTooLong, ''ok'' @ [CR, LF]) \<and>
   ReadLimitedLine 5 EOF ((''ok'' @ [CR]) @ LF # []) = (Inr ''ok'', [])"
  using ReadLimitedLine_frame [of "''toolong''" 5 EOF "''ok'' @ [CR, LF]"]
    ReadLimitedLine_frame [of "''ok'' @ [CR]" 5 EOF "[]"]
  by (simp add: trim_right_crlf_def)

text \<open>
  C16. Round trip of the framing: a line with no newline that does not end in CR, written with
  \<open>WriteLine\<close> and short enough for the reader's limit, is read back unchanged, and the reader is
  then at the first byte written after it.
\<close>

theorem WriteLine_ReadLimitedLine:
  assumes "LF \<notin> set line" and "line = [] \<or> last line \<noteq> CR" and "int (length line) + 1 < mx"
  shows "ReadLimitedLine mx fin (conn_WriteLine line @ rest) = (Inr line, rest)"
proof -
  have "\<not> has_suffix line [CR, LF]"
  proof
    assume "has_suffix line [CR, LF]"
    then have "LF \<in> set line" unfolding has_suffix_def by (metis in_set_dropD list.set_intros(1,2))
    then show False using assms(1) by simp
  qed
  then have "conn_WriteLine line @ rest = (line @ [CR]) @ LF # rest" by (simp add: conn_WriteLine_def)
  moreover have "last line \<noteq> LF \<or> line = []" using assms(1) last_in_set by metis
  ultimately show ?thesis
    using read_limited_line [of "line @ [CR]" "[]" mx fin rest] assms trim_right_crlf_id [of line]
      trim_right_crlf_line [of "line @ [CR]"]
    by (auto simp: ReadLimitedLine_def)
qed

theorem WriteLine_ReadLimitedLine_witness:
  "ReadLimitedLine 512 EOF (conn_WriteLine ''PING :x'' @ ''QUIT'') = (Inr ''PING :x'', ''QUIT'')"
  by (rule WriteLine_ReadLimitedLine) simp_all

end
