(* ===== verification/Flood_Pacers.thy ===== *)
theory Flood_Pacers
  imports Go_Prelude Complex_Main
begin

text \<open>
  The two pacers of uplink writes (\<open>src/internal/flood/bucket.go\<close> and \<open>line.go\<close>). Times and
  durations are integer nanoseconds, the zero \<open>time.Time\<close> is 0. The bucket's \<open>float64\<close> values
  are rationals: rounding is not modelled. The conversion of a wait to whole nanoseconds is, with what it
  makes of a value that an \<open>int64\<close> cannot hold.

  Both \<open>Take\<close> methods are a loop around one attempt under the lock: it admits the line or asks
  to sleep. The locale \<open>pacer\<close> is that interface, with the law that makes the loop end: after
  two sleeps of at least the requested length the line is admitted. Both pacers are interpretations. One goroutine
  takes lines, as the driver's drain loop does: while it sleeps nobody else takes from the pacer or
  configures it.
\<close>

type_synonym nanos = int

definition Second :: nanos where "Second = 1000000000"
definition Millisecond :: nanos where "Millisecond = 1000000"

section \<open>The Take loop\<close>

datatype 'p take_result = Taken 'p nanos | Cancelled 'p nanos

text \<open>
  \<open>attempt p now n\<close> is one pass under the lock: the new state and \<open>None\<close> when the line is admitted,
  or the time to sleep. \<open>sleeps\<close> gives for each sleep how much later than asked it ends, or \<open>None\<close>
  when the context ends first.
\<close>

fun take_loop :: "('p \<Rightarrow> nanos \<Rightarrow> int \<Rightarrow> 'p \<times> nanos option) \<Rightarrow> nat \<Rightarrow> (nat \<Rightarrow> nanos option) \<Rightarrow> 'p \<Rightarrow> nanos \<Rightarrow>
    int \<Rightarrow> 'p take_result option" where
  "take_loop attempt 0 sleeps p now n = None"
| "take_loop attempt (Suc fuel) sleeps p now n =
     (case attempt p now n of
        (p1, None) \<Rightarrow> Some (Taken p1 now)
      | (p1, Some wait) \<Rightarrow>
          (case sleeps fuel of
             None \<Rightarrow> Some (Cancelled p1 now)
           | Some late \<Rightarrow> take_loop attempt fuel sleeps p1 (now + wait + late) n))"

text \<open>
  A sender that takes one line after the other: a request is the time since the previous one ended,
  the length of the line and how its sleeps go. The result lists the lines let through, each with
  the time it was.
\<close>

type_synonym request = "nanos \<times> int \<times> (nat \<Rightarrow> nanos option)"

fun paced :: "('p \<Rightarrow> nanos \<Rightarrow> int \<Rightarrow> 'p \<times> nanos option) \<Rightarrow> 'p \<Rightarrow> nanos \<Rightarrow> request list \<Rightarrow>
    'p \<times> nanos \<times> (nanos \<times> int) list" where
  "paced attempt p now [] = (p, now, [])"
| "paced attempt p now ((gap, n, sleeps) # rs) =
     (case take_loop attempt 3 sleeps p (now + gap) n of
        Some (Taken p1 t) \<Rightarrow>
          (case paced attempt p1 t rs of (p2, t2, out) \<Rightarrow> (p2, t2, (t, n) # out))
      | Some (Cancelled p1 t) \<Rightarrow> paced attempt p1 t rs
      | None \<Rightarrow> paced attempt p (now + gap) rs)"

text \<open>A sleep that is not cut short ends no earlier than asked.\<close>

definition late_ok :: "(nat \<Rightarrow> nanos option) \<Rightarrow> bool" where
  "late_ok sleeps \<longleftrightarrow> (\<forall>i l. sleeps i = Some l \<longrightarrow> l \<ge> 0)"

lemma late_okD: "late_ok sleeps \<Longrightarrow> sleeps i = Some l \<Longrightarrow> l \<ge> 0"
  by (simp add: late_ok_def)

definition wf_request :: "request \<Rightarrow> bool" where
  "wf_request r \<longleftrightarrow> (case r of (gap, n, sleeps) \<Rightarrow> gap \<ge> 0 \<and> n \<ge> 0 \<and> late_ok sleeps)"

locale pacer =
  fixes attempt :: "'p \<Rightarrow> nanos \<Rightarrow> int \<Rightarrow> 'p \<times> nanos option"
    and inv :: "nanos \<Rightarrow> 'p \<Rightarrow> bool"
  assumes attempt_inv: "inv now p \<Longrightarrow> inv now (fst (attempt p now n))"
    and inv_later: "inv now p \<Longrightarrow> now \<le> t \<Longrightarrow> inv t p"
    and attempt_two:
      "inv t0 p \<Longrightarrow> attempt p t0 n = (p1, Some w1) \<Longrightarrow> t1 \<ge> t0 + w1 \<Longrightarrow> attempt p1 t1 n = (p2, Some w2) \<Longrightarrow>
       t2 \<ge> t1 + w2 \<Longrightarrow> snd (attempt p2 t2 n) = None"
begin

lemma take_ends:
  assumes "inv now p" and late: "late_ok sleeps"
  shows "\<exists>r. take_loop attempt 3 sleeps p now n = Some r"
proof -
  obtain p1 o1 where 1: "attempt p now n = (p1, o1)" by fastforce
  show ?thesis
  proof (cases "o1 = None \<or> sleeps 2 = None")
    case True
    then show ?thesis using 1 by (auto simp: numeral_3_eq_3 numeral_2_eq_2 split: option.splits)
  next
    case False
    then obtain w1 l1 where w1: "o1 = Some w1" "sleeps 2 = Some l1" by auto
    obtain p2 o2 where 2: "attempt p1 (now + w1 + l1) n = (p2, o2)" by fastforce
    show ?thesis
    proof (cases "o2 = None \<or> sleeps 1 = None")
      case True
      then show ?thesis using 1 2 w1 by (auto simp: numeral_3_eq_3 numeral_2_eq_2 split: option.splits)
    next
      case False
      then obtain w2 l2 where w2: "o2 = Some w2" "sleeps 1 = Some l2" by auto
      have "snd (attempt p2 (now + w1 + l1 + w2 + l2) n) = None"
        using attempt_two [OF assms(1), of n p1 w1 "now + w1 + l1" p2 w2 "now + w1 + l1 + w2 + l2"]
          1 2 w1 w2 late_okD [OF late] by simp
      then show ?thesis
        using 1 2 w1 w2 by (auto simp: numeral_3_eq_3 numeral_2_eq_2 split: option.splits prod.splits)
    qed
  qed
qed

end

section \<open>The per-line pacer\<close>

record LinePacer =
  lpBase :: nanos
  lpPerBytes :: int
  lpAllowance :: nanos
  lpOn :: bool
  lpClock :: nanos

definition NewLinePacer :: LinePacer where
  "NewLinePacer = \<lparr>lpBase = 2 * Second, lpPerBytes = 120, lpAllowance = 8 * Second, lpOn = False, lpClock = 0\<rparr>"

definition line_Configure :: "bool \<Rightarrow> LinePacer \<Rightarrow> LinePacer" where
  "line_Configure on p = (let p1 = p\<lparr>lpOn := on\<rparr> in if \<not> on then p1\<lparr>lpClock := 0\<rparr> else p1)"

definition line_Enabled :: "LinePacer \<Rightarrow> bool" where
  "line_Enabled p = lpOn p"

text \<open>Line lengths are not negative, so Go's truncating division is \<open>div\<close>.\<close>

definition Cost :: "LinePacer \<Rightarrow> int \<Rightarrow> nanos" where
  "Cost p n = (if lpPerBytes p \<le> 0 then lpBase p else lpBase p + (n div lpPerBytes p) * Second)"

definition line_attempt :: "LinePacer \<Rightarrow> nanos \<Rightarrow> int \<Rightarrow> LinePacer \<times> nanos option" where
  "line_attempt p now n =
     (if \<not> lpOn p then (p, None)
      else let p1 = (if lpClock p < now then p\<lparr>lpClock := now\<rparr> else p);
               cost = Cost p1 n;
               ahead = lpClock p1 - now
           in if ahead + cost \<le> lpAllowance p1 \<or> ahead = 0
              then (p1\<lparr>lpClock := lpClock p1 + cost\<rparr>, None)
              else let wait = ahead + cost - lpAllowance p1;
                       wait1 = (if wait > ahead then ahead else wait)
                   in (p1, Some wait1))"

definition line_Take :: "(nat \<Rightarrow> nanos option) \<Rightarrow> LinePacer \<Rightarrow> nanos \<Rightarrow> int \<Rightarrow> LinePacer take_result option" where
  "line_Take = take_loop line_attempt 3"

definition line_inv :: "nanos \<Rightarrow> LinePacer \<Rightarrow> bool" where
  "line_inv now p \<longleftrightarrow> lpBase p \<ge> 0 \<and> lpAllowance p \<ge> 0"

lemma Cost_clock [simp]: "Cost (p\<lparr>lpClock := c\<rparr>) n = Cost p n"
  by (simp add: Cost_def)

lemma line_attempt_wait:
  assumes "line_attempt p t0 n = (p1, Some w)" and "t1 \<ge> t0 + w"
  shows "snd (line_attempt p1 t1 n) = None"
  using assms by (auto simp: line_attempt_def Let_def split: if_splits)

lemma line_attempt_inv: "line_inv now p \<Longrightarrow> line_inv now (fst (line_attempt p now n))"
  by (auto simp: line_attempt_def line_inv_def Let_def)

interpretation line: pacer line_attempt line_inv
  by unfold_locales
    (use line_attempt_wait in \<open>auto simp: line_attempt_inv\<close>, simp add: line_inv_def)

section \<open>The byte bucket\<close>

record ByteBucket =
  bbBurst :: rat
  bbRate :: rat
  bbTokens :: rat
  bbLast :: nanos

definition NewByteBucket :: "int \<Rightarrow> rat \<Rightarrow> nanos \<Rightarrow> ByteBucket" where
  "NewByteBucket burst rate now =
     (let burst1 = (if burst < 0 then 0 else burst);
          b = \<lparr>bbBurst = of_int burst1, bbRate = rate, bbTokens = of_int burst1, bbLast = now\<rparr>
      in if bbBurst b < 1 \<and> rate > 0 then b\<lparr>bbBurst := 1, bbTokens := 1\<rparr> else b)"

definition refillLocked :: "nanos \<Rightarrow> ByteBucket \<Rightarrow> ByteBucket" where
  "refillLocked now b =
     (if bbRate b \<le> 0 \<or> bbBurst b \<le> 0 then b\<lparr>bbLast := now\<rparr>
      else let elapsed = of_int (now - bbLast b) / of_int Second
           in if elapsed > 0
              then let t = bbTokens b + elapsed * bbRate b
                   in b\<lparr>bbTokens := (if t > bbBurst b then bbBurst b else t), bbLast := now\<rparr>
              else b)"

definition bucket_Configure :: "int \<Rightarrow> rat \<Rightarrow> nanos \<Rightarrow> ByteBucket \<Rightarrow> ByteBucket" where
  "bucket_Configure burst rate now b =
     (let b1 = refillLocked now b;
          burst1 = (if burst < 0 then 0 else burst);
          b2 = b1\<lparr>bbBurst := of_int burst1, bbRate := rate\<rparr>;
          b3 = (if bbBurst b2 < 1 \<and> rate > 0 then b2\<lparr>bbBurst := 1\<rparr> else b2)
      in if bbTokens b3 > bbBurst b3 then b3\<lparr>bbTokens := bbBurst b3\<rparr> else b3)"

definition enabledLocked :: "ByteBucket \<Rightarrow> bool" where
  "enabledLocked b \<longleftrightarrow> bbRate b > 0 \<and> bbBurst b > 0"

definition clamp_wait :: "nanos \<Rightarrow> nanos" where
  "clamp_wait wait = (if wait < Millisecond then Millisecond else wait)"

lemma clamp_wait_ge: "clamp_wait w \<ge> w" "clamp_wait w \<ge> 1"
  by (simp_all add: clamp_wait_def Millisecond_def)

text \<open>
  \<open>time.Duration(x)\<close> of a \<open>float64\<close> that is not negative. Go leaves the result of a conversion out of range to the
  implementation; this is what amd64 returns, the least \<open>int64\<close>.
\<close>

definition to_Duration :: "rat \<Rightarrow> nanos" where
  "to_Duration x = (if \<lfloor>x\<rfloor> < 2 ^ 63 then \<lfloor>x\<rfloor> else - (2 ^ 63))"

definition bucket_attempt :: "ByteBucket \<Rightarrow> nanos \<Rightarrow> int \<Rightarrow> ByteBucket \<times> nanos option" where
  "bucket_attempt b now n =
     (if n \<le> 0 then (b, None)
      else if \<not> enabledLocked b then (b, None)
      else let need = of_int n;
               b1 = refillLocked now b
           in if need \<le> bbBurst b1
              then if bbTokens b1 \<ge> need then (b1\<lparr>bbTokens := bbTokens b1 - need\<rparr>, None)
                   else (b1, Some (clamp_wait (to_Duration ((need - bbTokens b1) / bbRate b1 * of_int Second))))
              else if bbTokens b1 \<ge> bbBurst b1 then (b1\<lparr>bbTokens := 0\<rparr>, None)
                   else (b1, Some (clamp_wait (to_Duration ((bbBurst b1 - bbTokens b1) / bbRate b1 * of_int Second)))))"

definition bucket_Take :: "(nat \<Rightarrow> nanos option) \<Rightarrow> ByteBucket \<Rightarrow> nanos \<Rightarrow> int \<Rightarrow> ByteBucket take_result option" where
  "bucket_Take = take_loop bucket_attempt 3"

text \<open>
  The time in which an empty bucket fills is a \<open>Duration\<close>. At smaller rates (for a burst of 512 bytes, below
  about 5.6e-8 bytes per second) the wait overflows.
\<close>

definition wait_fits :: "ByteBucket \<Rightarrow> bool" where
  "wait_fits b \<longleftrightarrow> (enabledLocked b \<longrightarrow> bbBurst b / bbRate b * of_int Second < 2 ^ 63)"

text \<open>The bucket is between empty and full, and was last refilled in the past.\<close>

definition bucket_inv :: "nanos \<Rightarrow> ByteBucket \<Rightarrow> bool" where
  "bucket_inv now b \<longleftrightarrow> 0 \<le> bbTokens b \<and> bbTokens b \<le> bbBurst b \<and> bbLast b \<le> now"

lemma Second_pos [simp]: "0 < Second" "0 \<le> Second" "(0::rat) < of_int Second"
  by (simp_all add: Second_def)

lemma refill_fields [simp]:
  "bbRate (refillLocked now b) = bbRate b" "bbBurst (refillLocked now b) = bbBurst b"
  "enabledLocked (refillLocked now b) = enabledLocked b"
  by (auto simp: refillLocked_def enabledLocked_def Let_def)

text \<open>The tokens that accrue in \<open>d\<close> nanoseconds.\<close>

definition accrued :: "ByteBucket \<Rightarrow> nanos \<Rightarrow> rat" where
  "accrued b d = of_int d / of_int Second * bbRate b"

lemma accrued_mono: "enabledLocked b \<Longrightarrow> d \<le> e \<Longrightarrow> accrued b d \<le> accrued b e"
  unfolding accrued_def enabledLocked_def by (intro mult_right_mono divide_right_mono) auto

lemma accrued_nonneg: "enabledLocked b \<Longrightarrow> 0 \<le> d \<Longrightarrow> 0 \<le> accrued b d"
  using accrued_mono [of b 0 d] by (simp add: accrued_def)

lemma refill_enabled:
  assumes "enabledLocked b" and "bucket_inv now b"
  shows "refillLocked now b =
    b\<lparr>bbTokens := min (bbBurst b) (bbTokens b + accrued b (now - bbLast b)), bbLast := now\<rparr>"
proof (cases "bbLast b = now")
  case True
  then show ?thesis using assms by (simp add: refillLocked_def bucket_inv_def accrued_def min_def enabledLocked_def)
next
  case False
  then have "0 < (of_int (now - bbLast b) :: rat) / of_int Second"
    using assms(2) by (simp add: bucket_inv_def)
  then show ?thesis
    using assms(1) by (auto simp: refillLocked_def accrued_def min_def enabledLocked_def Let_def)
qed

lemma refill_last: "enabledLocked b \<Longrightarrow> bucket_inv now b \<Longrightarrow> bbLast (refillLocked now b) = now"
  by (simp add: refill_enabled)

lemma refill_inv [simp]: "bucket_inv now b \<Longrightarrow> bucket_inv now (refillLocked now b)"
proof (cases "enabledLocked b")
  case True
  assume inv: "bucket_inv now b"
  then have "0 \<le> accrued b (now - bbLast b)" using True by (simp add: accrued_nonneg bucket_inv_def)
  then show ?thesis
    using refill_enabled [OF True inv] inv True by (auto simp: bucket_inv_def enabledLocked_def)
next
  case False
  assume "bucket_inv now b"
  then show ?thesis using False by (auto simp: refillLocked_def bucket_inv_def enabledLocked_def)
qed

lemma bucket_attempt_inv: "bucket_inv now b \<Longrightarrow> bucket_inv now (fst (bucket_attempt b now n))"
  using refill_inv [of now b] by (auto simp: bucket_attempt_def Let_def bucket_inv_def)

text \<open>What one pass needs: the line, or a full bucket for a line above the burst.\<close>

definition target :: "ByteBucket \<Rightarrow> int \<Rightarrow> rat" where
  "target b n = min (of_int n) (bbBurst b)"

lemma target_refill [simp]: "target (refillLocked now b) n = target b n"
  by (simp add: target_def)

lemma bucket_attempt_target:
  assumes "n > 0" and "enabledLocked b"
  shows "snd (bucket_attempt b now n) =
    (if bbTokens (refillLocked now b) \<ge> target b n then None
     else Some (clamp_wait (to_Duration ((target b n - bbTokens (refillLocked now b)) / bbRate b * of_int Second))))"
  using assms by (auto simp: bucket_attempt_def Let_def target_def min_def)

lemma bucket_attempt_wait:
  assumes "bucket_attempt b now n = (b1, Some w)"
  shows "n > 0" and "enabledLocked b" and "b1 = refillLocked now b"
    and "bbTokens b1 < target b n"
    and "w = clamp_wait (to_Duration ((target b n - bbTokens b1) / bbRate b * of_int Second))"
  using assms by (auto simp: bucket_attempt_def Let_def target_def min_def split: if_splits)

text \<open>After a sleep of the requested length at most one nanosecond's worth of tokens is missing.\<close>

lemma to_Duration_fits: "wait_fits b \<Longrightarrow> enabledLocked b \<Longrightarrow> short \<le> bbBurst b \<Longrightarrow>
  to_Duration (short / bbRate b * of_int Second) = \<lfloor>short / bbRate b * of_int Second\<rfloor>"
proof -
  assume fits: "wait_fits b" and on: "enabledLocked b" and "short \<le> bbBurst b"
  then have "short / bbRate b * of_int Second \<le> bbBurst b / bbRate b * of_int Second"
    by (intro mult_right_mono divide_right_mono) (auto simp: enabledLocked_def)
  also have "\<dots> < 2 ^ 63" using fits on by (simp add: wait_fits_def)
  finally have "\<lfloor>short / bbRate b * of_int Second\<rfloor> < 2 ^ 63" by (simp add: floor_less_iff)
  then show ?thesis by (simp add: to_Duration_def)
qed

lemma accrued_wait:
  assumes "enabledLocked b" and "d \<ge> clamp_wait \<lfloor>short / bbRate b * of_int Second\<rfloor>"
  shows "accrued b d > short - accrued b 1" and "short \<le> accrued b 1 \<Longrightarrow> accrued b d \<ge> short"
proof -
  define x where "x = short / bbRate b * of_int Second"
  have short: "short = x / of_int Second * bbRate b"
    using assms(1) by (simp add: x_def enabledLocked_def Second_def)
  have pos: "0 < bbRate b / of_int Second" using assms(1) by (simp add: enabledLocked_def)
  have "d \<ge> \<lfloor>x\<rfloor>" and ms: "d \<ge> 1"
    using assms(2) clamp_wait_ge [of "\<lfloor>x\<rfloor>"] unfolding x_def [symmetric] by linarith+
  then have "of_int d > x - 1" by linarith
  then have "(x - 1) * (bbRate b / of_int Second) < of_int d * (bbRate b / of_int Second)"
    using pos by (rule mult_strict_right_mono)
  then show "accrued b d > short - accrued b 1"
    unfolding short accrued_def by (simp add: algebra_simps diff_divide_distrib)
  show "accrued b d \<ge> short" if "short \<le> accrued b 1"
    using that accrued_mono [OF assms(1) ms] by linarith
qed

lemma bucket_refill_later:
  assumes "enabledLocked b" and "bucket_inv t0 b" and "bbLast b = t0" and "t1 \<ge> t0"
  shows "bbTokens (refillLocked t1 b) = min (bbBurst b) (bbTokens b + accrued b (t1 - t0))"
  using refill_enabled [of b t1] assms by (simp add: bucket_inv_def)

lemma bucket_attempt_two:
  assumes inv: "bucket_inv t0 b" and fits: "wait_fits b" and 1: "bucket_attempt b t0 n = (b1, Some w1)" and t1: "t1 \<ge> t0 + w1"
    and 2: "bucket_attempt b1 t1 n = (b2, Some w2)" and t2: "t2 \<ge> t1 + w2"
  shows "snd (bucket_attempt b2 t2 n) = None"
proof -
  note A = bucket_attempt_wait [OF 1] and B = bucket_attempt_wait [OF 2]
  have w: "w1 \<ge> 0" "w2 \<ge> 0" using A(5) B(5) by (auto simp: clamp_wait_def Millisecond_def split: if_splits)
  have b1: "enabledLocked b1" "bucket_inv t0 b1" "bbLast b1 = t0" "bbRate b1 = bbRate b" "target b1 n = target b n"
    using A(2,3) inv refill_last [OF A(2) inv] by simp_all
  then have inv1: "bucket_inv t1 b1" using t1 w by (simp add: bucket_inv_def)
  have b2: "enabledLocked b2" "bucket_inv t1 b2" "bbLast b2 = t1" "bbRate b2 = bbRate b" "target b2 n = target b n"
    using B(3) b1 inv1 refill_last [OF b1(1) inv1] by simp_all
  have tgt: "target b n \<le> bbBurst b1" "target b n \<le> bbBurst b2"
    using A(3) B(3) by (auto simp: target_def)
  have fits1: "wait_fits b1" using fits A(3) by (simp add: wait_fits_def)
  have wA: "w1 = clamp_wait \<lfloor>(target b n - bbTokens b1) / bbRate b1 * of_int Second\<rfloor>"
    using A(5) to_Duration_fits [OF fits1 b1(1), of "target b n - bbTokens b1"] b1(2,4) tgt(1)
    by (simp add: bucket_inv_def)
  have wB: "w2 = clamp_wait \<lfloor>(target b n - bbTokens b2) / bbRate b2 * of_int Second\<rfloor>"
    using B(3,5) to_Duration_fits [OF fits1 b1(1), of "target b n - bbTokens b2"] b1(4,5) b2(2,4) tgt(2)
    by (simp add: bucket_inv_def)
  have "bbTokens b2 = min (bbBurst b1) (bbTokens b1 + accrued b1 (t1 - t0))"
    using bucket_refill_later [OF b1(1-3)] B(3) t1 w by simp
  moreover have "accrued b1 (t1 - t0) > (target b n - bbTokens b1) - accrued b1 1"
    using accrued_wait(1) [OF b1(1)] wA t1 by simp
  ultimately have short: "target b n - bbTokens b2 \<le> accrued b2 1"
    using B(4) b1(5) tgt(1) b2(4) b1(4) by (simp add: accrued_def min_def split: if_splits)
  have "accrued b2 (t2 - t1) \<ge> target b n - bbTokens b2"
    using accrued_wait(2) [OF b2(1) _ short] wB t2 by simp
  moreover have "bbTokens (refillLocked t2 b2) = min (bbBurst b2) (bbTokens b2 + accrued b2 (t2 - t1))"
    using bucket_refill_later [OF b2(1-3)] t2 w by simp
  ultimately show ?thesis
    using bucket_attempt_target [OF A(1) b2(1)] tgt(2) b2(5) by simp
qed

definition bucket_ok :: "nanos \<Rightarrow> ByteBucket \<Rightarrow> bool" where
  "bucket_ok now b \<longleftrightarrow> bucket_inv now b \<and> wait_fits b"

lemma bucket_attempt_fits: "wait_fits b \<Longrightarrow> wait_fits (fst (bucket_attempt b now n))"
  by (auto simp: bucket_attempt_def Let_def wait_fits_def enabledLocked_def)

interpretation bucket: pacer bucket_attempt bucket_ok
proof
  show "bucket_ok now p \<Longrightarrow> bucket_ok now (fst (bucket_attempt p now n))" for now p n
    by (simp add: bucket_ok_def bucket_attempt_inv bucket_attempt_fits)
  show "bucket_ok now p \<Longrightarrow> now \<le> t \<Longrightarrow> bucket_ok t p" for now t p
    by (simp add: bucket_ok_def bucket_inv_def)
  show "bucket_ok t0 p \<Longrightarrow> bucket_attempt p t0 n = (p1, Some w1) \<Longrightarrow> t0 + w1 \<le> t1 \<Longrightarrow>
      bucket_attempt p1 t1 n = (p2, Some w2) \<Longrightarrow> t1 + w2 \<le> t2 \<Longrightarrow> snd (bucket_attempt p2 t2 n) = None"
    for t0 p n p1 w1 t1 p2 w2 t2
    unfolding bucket_ok_def by (elim conjE) (rule bucket_attempt_two)
qed

section \<open>Runs of the per-line pacer\<close>

text \<open>
  The clock that ircu keeps for a client (\<open>ircd/parse.c\<close>, as the comment of \<open>LinePacer\<close> has it): a line of \<open>n\<close> bytes that
  arrives at time \<open>t\<close> is charged two seconds and one more for every 120 bytes, on top of the clock or of the present.
\<close>

definition ircu_penalty :: "int \<Rightarrow> nanos" where
  "ircu_penalty n = 2000000000 + n div 120 * 1000000000"

definition charge :: "nanos \<Rightarrow> nanos \<times> int \<Rightarrow> nanos" where
  "charge clk r = (case r of (t, n) \<Rightarrow> max clk t + ircu_penalty n)"

lemma Cost_ircu: "Cost NewLinePacer n = ircu_penalty n"
  by (simp add: Cost_def NewLinePacer_def ircu_penalty_def Second_def)

definition on_pacer :: "LinePacer \<Rightarrow> bool" where
  "on_pacer p \<longleftrightarrow> p\<lparr>lpClock := 0\<rparr> = line_Configure True NewLinePacer"

lemma on_pacerD:
  "on_pacer p \<Longrightarrow> lpOn p \<and> Cost p n = ircu_penalty n \<and> lpAllowance p = 8 * Second \<and> lpBase p = 2 * Second"
  using Cost_ircu [of n] by (cases p) (simp add: on_pacer_def line_Configure_def NewLinePacer_def Cost_def)

lemma on_pacer_clock [simp]: "on_pacer (p\<lparr>lpClock := c\<rparr>) = on_pacer p"
  by (simp add: on_pacer_def)

lemma line_attempt_on:
  assumes "on_pacer p" and "line_attempt p now n = (p1, r)"
  shows "on_pacer p1 \<and>
    (case r of
       None \<Rightarrow> lpClock p1 = charge (lpClock p) (now, n) \<and>
               lpClock p1 - now \<le> max (8 * Second) (ircu_penalty n)
     | Some w \<Rightarrow> lpClock p1 = max (lpClock p) now \<and> w \<ge> 0)"
  using assms on_pacerD [OF assms(1), of n]
  by (auto simp: line_attempt_def Let_def charge_def split: if_splits)

lemma line_take_on:
  assumes "on_pacer p" and "late_ok sleeps"
    and "take_loop line_attempt fuel sleeps p now n = Some r"
  shows "case r of
     Taken p1 t \<Rightarrow> on_pacer p1 \<and> t \<ge> now \<and> lpClock p1 = charge (lpClock p) (t, n) \<and>
                   lpClock p1 - t \<le> max (8 * Second) (ircu_penalty n)
   | Cancelled p1 t \<Rightarrow> on_pacer p1 \<and> t \<ge> now \<and> lpClock p1 = max (lpClock p) t"
  using assms
proof (induction fuel arbitrary: p now)
  case 0
  then show ?case by simp
next
  case (Suc fuel)
  obtain p1 o1 where 1: "line_attempt p now n = (p1, o1)" by fastforce
  note A = line_attempt_on [OF Suc.prems(1) 1]
  show ?case
  proof (cases "o1 = None \<or> sleeps fuel = None")
    case True
    then show ?thesis using A 1 Suc.prems(3) by (auto split: option.splits)
  next
    case False
    then obtain w l where wl: "o1 = Some w" "sleeps fuel = Some l" by auto
    then have "l \<ge> 0" and "w \<ge> 0" using late_okD [OF Suc.prems(2)] A by auto
    then have "now \<le> t \<and> max (max (lpClock p) now) t = max (lpClock p) t" if "now + w + l \<le> t" for t
      using that by linarith
    then show ?thesis
      using Suc.IH [of p1 "now + w + l"] Suc.prems(2,3) A 1 wl
      by (auto simp: charge_def split: take_result.splits)
  qed
qed

text \<open>The pacer's clock agrees with the server's, up to having been moved on to the present.\<close>

definition clocks_agree :: "nanos \<Rightarrow> LinePacer \<Rightarrow> nanos \<Rightarrow> bool" where
  "clocks_agree now p clk \<longleftrightarrow> lpClock p = clk \<or> clk \<le> lpClock p \<and> lpClock p \<le> now"

fun server_clocks :: "nanos \<Rightarrow> (nanos \<times> int) list \<Rightarrow> (nanos \<times> nanos) list" where
  "server_clocks clk [] = []"
| "server_clocks clk ((t, n) # rs) =
     (let clk1 = charge clk (t, n) in (t, clk1) # server_clocks clk1 rs)"

lemma paced_line_clock:
  assumes "on_pacer p" and "clocks_agree now p clk" and "list_all wf_request rs"
    and "list_all (\<lambda>(gap, n, sleeps). n < 840) rs" and "paced line_attempt p now rs = (p', t', out)"
  shows "list_all (\<lambda>(t, c). c - t \<le> 8 * Second) (server_clocks clk out)"
  using assms
proof (induction rs arbitrary: p now clk out)
  case Nil
  then show ?case by simp
next
  case (Cons r rs)
  obtain gap n sleeps where r: "r = (gap, n, sleeps)" by (cases r)
  have gap: "gap \<ge> 0" and late: "late_ok sleeps" and n: "0 \<le> n" "n < 840"
    using Cons.prems(3,4) by (auto simp: r wf_request_def)
  have "n div 120 \<le> 6" using n by simp
  then have cost: "ircu_penalty n \<le> 8 * Second" by (simp add: ircu_penalty_def Second_def)
  obtain res where res: "take_loop line_attempt 3 sleeps p (now + gap) n = Some res"
    using line.take_ends [of "now + gap" p sleeps n] late on_pacerD [OF Cons.prems(1), of n]
    by (auto simp: line_inv_def Second_def)
  note T = line_take_on [OF Cons.prems(1) late res]
  show ?case
  proof (cases res)
    case (Taken p1 t)
    obtain out1 where out1: "paced line_attempt p1 t rs = (p', t', out1)" "out = (t, n) # out1"
      using Cons.prems(5) res Taken r by (auto split: prod.splits)
    then have "lpClock p1 = max (lpClock p) t + ircu_penalty n" "now + gap \<le> t"
      using T Taken by (auto simp: charge_def)
    then have "charge clk (t, n) = lpClock p1"
      using Cons.prems(2) gap unfolding charge_def clocks_agree_def by auto
    then show ?thesis
      using Cons.IH [of p1 t "lpClock p1" out1] Cons.prems(3,4) T Taken out1 cost
      by (simp add: clocks_agree_def Let_def)
  next
    case (Cancelled p1 t)
    then have "paced line_attempt p1 t rs = (p', t', out)"
      using Cons.prems(5) res r by simp
    moreover have "clocks_agree t p1 clk"
      using T Cancelled Cons.prems(2) gap by (auto simp: clocks_agree_def)
    ultimately show ?thesis using Cons.IH [of p1 t clk out] Cons.prems(3,4) T Cancelled by simp
  qed
qed

section \<open>Runs of the byte bucket\<close>

text \<open>What the bucket would hold at time \<open>now\<close> if it had no upper bound.\<close>

definition avail :: "ByteBucket \<Rightarrow> nanos \<Rightarrow> rat" where
  "avail b now = bbTokens b + accrued b (now - bbLast b)"

lemma avail_later: "avail b t = avail b now + accrued b (t - now)"
  by (simp add: avail_def accrued_def diff_divide_distrib algebra_simps)

lemma bucket_attempt_spend:
  assumes "enabledLocked b" and "bucket_inv now b" and "n \<ge> 0" and "bucket_attempt b now n = (b1, r)"
  shows "enabledLocked b1 \<and> bucket_inv now b1 \<and> bbRate b1 = bbRate b \<and> bbBurst b1 = bbBurst b \<and>
    avail b1 now + (if r = None then target b n else 0) \<le> avail b now"
proof (cases "n = 0")
  case True
  then show ?thesis using assms by (auto simp: bucket_attempt_def target_def enabledLocked_def)
next
  case False
  have b1: "avail (refillLocked now b) now \<le> avail b now"
    using refill_enabled [OF assms(1,2)] by (simp add: avail_def accrued_def)
  have t: "avail (b'\<lparr>bbTokens := x\<rparr>) now = avail b' now - bbTokens b' + x" for b' x
    by (simp add: avail_def accrued_def)
  show ?thesis
    using assms bucket_attempt_inv [OF assms(2), of n] b1 False refill_fields [of now b]
    by (auto simp: bucket_attempt_def Let_def target_def enabledLocked_def t min_def split: if_splits)
qed

lemma bucket_take_spend:
  assumes "enabledLocked b" and "bucket_inv now b" and "n \<ge> 0"
    and "late_ok sleeps" and "take_loop bucket_attempt fuel sleeps b now n = Some r"
  shows "case r of
     Taken b1 t \<Rightarrow> t \<ge> now \<and> enabledLocked b1 \<and> bucket_inv t b1 \<and> bbRate b1 = bbRate b \<and>
       bbBurst b1 = bbBurst b \<and> avail b1 t + target b n \<le> avail b t
   | Cancelled b1 t \<Rightarrow> t \<ge> now \<and> enabledLocked b1 \<and> bucket_inv t b1 \<and> bbRate b1 = bbRate b \<and>
       bbBurst b1 = bbBurst b \<and> avail b1 t \<le> avail b t"
  using assms
proof (induction fuel arbitrary: b now)
  case 0
  then show ?case by simp
next
  case (Suc fuel)
  obtain b1 o1 where 1: "bucket_attempt b now n = (b1, o1)" by fastforce
  note A = bucket_attempt_spend [OF Suc.prems(1-3) 1]
  show ?case
  proof (cases "o1 = None \<or> sleeps fuel = None")
    case True
    then show ?thesis using A 1 Suc.prems(5) by (auto split: option.splits if_splits)
  next
    case False
    then obtain w l where wl: "o1 = Some w" "sleeps fuel = Some l" by auto
    then have lw: "l \<ge> 0" "w \<ge> 1"
      using late_okD [OF Suc.prems(4)] bucket_attempt_wait(5) [of b now n b1 w] 1 clamp_wait_ge(2) by auto
    then have "bucket_inv (now + w + l) b1" and tgt: "target b1 n = target b n"
      using A by (auto simp: bucket_inv_def target_def)
    note IH = Suc.IH [OF _ this(1) Suc.prems(3,4), of]
    have av: "avail b1 t \<le> avail b t" for t
      using A wl(1) avail_later [of b1 t now] avail_later [of b t now] by (simp add: accrued_def)
    have "take_loop bucket_attempt fuel sleeps b1 (now + w + l) n = Some r"
      using Suc.prems(5) 1 wl by simp
    then show ?thesis
      using IH A tgt lw order_trans [OF _ av] by (auto split: take_result.splits)
  qed
qed

lemma paced_lines: "paced attempt p now rs = (p', t', out) \<Longrightarrow> set (map snd out) \<subseteq> set (map (fst \<circ> snd) rs)"
proof (induction rs arbitrary: p now out)
  case Nil
  then show ?case by simp
next
  case (Cons r rs)
  obtain gap n sleeps where r: "r = (gap, n, sleeps)" by (cases r)
  show ?case
  proof (cases "take_loop attempt 3 sleeps p (now + gap) n")
    case None
    then have "paced attempt p (now + gap) rs = (p', t', out)" using Cons.prems r by simp
    then have "set (map snd out) \<subseteq> set (map (fst \<circ> snd) rs)" by (rule Cons.IH)
    then show ?thesis by auto
  next
    case (Some res)
    then obtain q t where "paced attempt q t rs = (p', t', out) \<or>
        (\<exists>out1 t1. paced attempt q t rs = (p', t', out1) \<and> out = (t1, n) # out1)"
      using Cons.prems r by (cases res) (auto split: prod.splits)
    then show ?thesis
    proof (elim disjE exE conjE)
      assume "paced attempt q t rs = (p', t', out)"
      then have "set (map snd out) \<subseteq> set (map (fst \<circ> snd) rs)" by (rule Cons.IH)
      then show ?thesis by auto
    next
      fix out1 t1 assume "paced attempt q t rs = (p', t', out1)" and out: "out = (t1, n) # out1"
      then have "set (map snd out1) \<subseteq> set (map (fst \<circ> snd) rs)" by (intro Cons.IH)
      then show ?thesis by (auto simp: r out)
    qed
  qed
qed

lemma paced_bucket_spend:
  assumes "enabledLocked b" and "bucket_ok now b" and "list_all wf_request rs"
    and "paced bucket_attempt b now rs = (b', t', out)"
  shows "t' \<ge> now \<and> bucket_ok t' b' \<and> enabledLocked b' \<and> bbBurst b' = bbBurst b \<and> bbRate b' = bbRate b \<and>
    avail b' t' + (\<Sum>(t, n)\<leftarrow>out. target b n) \<le> avail b now + accrued b (t' - now)"
  using assms
proof (induction rs arbitrary: b now out)
  case Nil
  then show ?case by (simp add: accrued_def)
next
  case (Cons r rs)
  obtain gap n sleeps where r: "r = (gap, n, sleeps)" by (cases r)
  have gap: "gap \<ge> 0" and late: "late_ok sleeps" and n: "0 \<le> n"
    using Cons.prems(3) by (auto simp: r wf_request_def)
  have inv: "bucket_ok (now + gap) b" using Cons.prems(2) gap by (simp add: bucket_ok_def bucket_inv_def)
  obtain res where res: "take_loop bucket_attempt 3 sleeps b (now + gap) n = Some res"
    using bucket.take_ends [OF inv late] by blast
  have inv': "bucket_inv (now + gap) b" using inv by (simp add: bucket_ok_def)
  note T = bucket_take_spend [OF Cons.prems(1) inv' n late res]
  have fits: "wait_fits b1" if "bbRate b1 = bbRate b" "bbBurst b1 = bbBurst b" "enabledLocked b1" for b1
    using that Cons.prems(1,2) by (simp add: bucket_ok_def wait_fits_def)
  have later: "avail b t + accrued b (t' - t) = avail b now + accrued b (t' - now)" for t
    using avail_later [of b t now] by (simp add: accrued_def diff_divide_distrib algebra_simps)
  show ?case
  proof (cases res)
    case (Taken b1 t)
    obtain out1 where out1: "paced bucket_attempt b1 t rs = (b', t', out1)" "out = (t, n) # out1"
      using Cons.prems(4) res Taken r by (auto split: prod.splits)
    have "target b1 = target b" "accrued b1 = accrued b" "t \<ge> now"
      using T Taken gap by (auto simp: target_def accrued_def fun_eq_iff)
    then show ?thesis
      using Cons.IH [of b1 t out1] Cons.prems(3) T Taken out1 later [of t] fits [of b1] by (auto simp: bucket_ok_def)
  next
    case (Cancelled b1 t)
    then have "paced bucket_attempt b1 t rs = (b', t', out)" using Cons.prems(4) res r by simp
    moreover have "target b1 = target b" "accrued b1 = accrued b" "t \<ge> now"
      using T Cancelled gap by (auto simp: target_def accrued_def fun_eq_iff)
    ultimately show ?thesis using Cons.IH [of b1 t out] Cons.prems(3) T Cancelled later [of t] fits [of b1] by (auto simp: bucket_ok_def)
  qed
qed

section \<open>Properties\<close>

text \<open>
  C6. The per-line pacer protects against Excess Flood: whatever lines of less than 840 bytes a sender
  takes one after the other from a freshly enabled pacer, with whatever delays, late wake-ups and
  cancellations, the clock that ircu charges for the lines let through (two seconds a line and one more for every
  120 bytes) never runs more than 8 s ahead of real time at the moment a line is sent (ircu stops
  reading at 10 s). Lines that are written past the pacer are charged by the server on top of this.
\<close>

theorem line_pacer_server_clock:
  assumes "list_all wf_request rs" and "list_all (\<lambda>(gap, n, sleeps). n < 840) rs" and "now \<ge> 0"
    and "paced line_attempt (line_Configure True NewLinePacer) now rs = (p', t', out)"
  shows "list_all (\<lambda>(t, c). c - t \<le> 8 * Second) (server_clocks 0 out)"
proof (rule paced_line_clock [OF _ _ assms(1,2,4)])
  show "on_pacer (line_Configure True NewLinePacer)"
    by (simp add: on_pacer_def line_Configure_def NewLinePacer_def)
  show "clocks_agree now (line_Configure True NewLinePacer) 0"
    by (simp add: clocks_agree_def line_Configure_def NewLinePacer_def)
qed

theorem line_pacer_server_clock_witness:
  "list_all (\<lambda>(t, c). c - t \<le> 8 * Second)
     (server_clocks 0 (snd (snd (paced line_attempt (line_Configure True NewLinePacer) 5
        (replicate 6 (0, 100, \<lambda>_. Some 7)))))) \<and>
   length (snd (snd (paced line_attempt (line_Configure True NewLinePacer) 5
        (replicate 6 (0, 100, \<lambda>_. Some 7))))) = 6"
proof -
  let ?rs = "replicate 6 (0, 100, \<lambda>_. Some 7)"
  obtain p' t' out where run: "paced line_attempt (line_Configure True NewLinePacer) 5 ?rs = (p', t', out)"
    using prod_cases3 by blast
  have "list_all wf_request ?rs" by (simp add: list_all_iff wf_request_def late_ok_def)
  moreover have "length (snd (snd (paced line_attempt (line_Configure True NewLinePacer) 5 ?rs))) = 6"
    by code_simp
  ultimately show ?thesis using line_pacer_server_clock [OF _ _ _ run] run by (simp add: list_all_iff)
qed

text \<open>
  C11. The byte bucket is a token bucket: over any run of requests from time \<open>now\<close> to time \<open>t'\<close> on an enabled
  bucket, what the lines let through are charged (their bytes, and the burst for a line above it, which waits for a
  full bucket and empties it) is at most the tokens at the start plus what accrues at the configured rate. So when no
  line is above the burst, this bounds the bytes themselves. Rate and burst stay, and the tokens stay between 0 and the
  burst. The rate is such that an empty bucket fills within the range of a \<open>Duration\<close>.
\<close>

theorem bucket_rate_bound:
  assumes "enabledLocked b" and "bucket_inv now b" and "wait_fits b" and "list_all wf_request rs"
    and "paced bucket_attempt b now rs = (b', t', out)"
  shows "(\<Sum>(t, n)\<leftarrow>out. min (of_int n) (bbBurst b)) \<le> bbTokens b + of_int (t' - bbLast b) / of_int Second * bbRate b \<and>
    (list_all (\<lambda>(gap, n, sleeps). of_int n \<le> bbBurst b) rs \<longrightarrow>
       (\<Sum>(t, n)\<leftarrow>out. of_int n) \<le> bbTokens b + of_int (t' - bbLast b) / of_int Second * bbRate b) \<and>
    bbRate b' = bbRate b \<and> bbBurst b' = bbBurst b \<and> 0 \<le> bbTokens b' \<and> bbTokens b' \<le> bbBurst b"
proof -
  have ok: "bucket_ok now b" using assms(2,3) by (simp add: bucket_ok_def)
  note P = paced_bucket_spend [OF assms(1) ok assms(4,5)]
  have "0 \<le> avail b' t'"
    using P accrued_nonneg [of b' "t' - bbLast b'"] by (simp add: avail_def bucket_ok_def bucket_inv_def)
  moreover have "avail b now + accrued b (t' - now) = bbTokens b + accrued b (t' - bbLast b)"
    by (simp add: avail_def accrued_def diff_divide_distrib algebra_simps)
  ultimately have charged: "(\<Sum>(t, n)\<leftarrow>out. min (of_int n) (bbBurst b)) \<le> bbTokens b + of_int (t' - bbLast b) / of_int Second * bbRate b"
    using P by (simp add: target_def accrued_def)
  have "(\<Sum>(t, n)\<leftarrow>out. min (of_int n) (bbBurst b)) = (\<Sum>(t, n)\<leftarrow>out. of_int n)"
    if small: "list_all (\<lambda>(gap, n, sleeps). of_int n \<le> bbBurst b) rs"
  proof -
    have "of_int n \<le> bbBurst b" if "(t, n) \<in> set out" for t n
      using paced_lines [OF assms(5)] that small by (fastforce simp: list_all_iff)
    then show ?thesis by (intro arg_cong [where f = sum_list] map_cong) auto
  qed
  then show ?thesis using charged P by (auto simp: bucket_ok_def bucket_inv_def)
qed

theorem bucket_rate_bound_witness:
  "(\<Sum>(t, n)\<leftarrow>snd (snd (paced bucket_attempt (NewByteBucket 10 5 0) 0 (replicate 3 (0, 8, \<lambda>_. Some 0)))). rat_of_int n) \<le>
   10 + of_int (fst (snd (paced bucket_attempt (NewByteBucket 10 5 0) 0 (replicate 3 (0, 8, \<lambda>_. Some 0)))) - 0) /
     of_int Second * 5 \<and>
   length (snd (snd (paced bucket_attempt (NewByteBucket 10 5 0) 0 (replicate 3 (0, 8, \<lambda>_. Some 0))))) = 3"
proof -
  let ?rs = "replicate 3 (0, 8, \<lambda>_. Some 0)"
  obtain b' t' out where run: "paced bucket_attempt (NewByteBucket 10 5 0) 0 ?rs = (b', t', out)"
    using prod_cases3 by blast
  have "list_all wf_request ?rs" by (simp add: list_all_iff wf_request_def late_ok_def)
  moreover have "length (snd (snd (paced bucket_attempt (NewByteBucket 10 5 0) 0 ?rs))) = 3" by code_simp
  ultimately show ?thesis
    using bucket_rate_bound [OF _ _ _ _ run] run
    by (simp add: NewByteBucket_def enabledLocked_def bucket_inv_def wait_fits_def Second_def list_all_iff)
qed

text \<open>
  C12. Both \<open>Take\<close> loops return: for a pacer in a consistent state that nobody else uses meanwhile, a bucket whose empty
  state fills within the range of a \<open>Duration\<close>, and sleeps that end no earlier than asked, three passes under the
  lock are enough for the line to be admitted or the context to end.
\<close>

theorem Take_returns:
  assumes "late_ok sleeps" and "lpBase p \<ge> 0" and "lpAllowance p \<ge> 0" and "bucket_inv now b" and "wait_fits b"
  shows "(\<exists>r. line_Take sleeps p now n = Some r) \<and> (\<exists>r. bucket_Take sleeps b now n = Some r)"
  using line.take_ends [of now p sleeps n] bucket.take_ends [of now b sleeps n] assms
  by (simp add: line_Take_def bucket_Take_def line_inv_def bucket_ok_def)

theorem Take_returns_witness:
  "(\<exists>r. line_Take (\<lambda>_. Some 0) NewLinePacer 0 4000 = Some r) \<and> (\<exists>r. bucket_Take (\<lambda>_. Some 0) (NewByteBucket 10 5 0) 0 4000 = Some r)"
  using Take_returns [of "\<lambda>_. Some 0" NewLinePacer 0 "NewByteBucket 10 5 0" 4000]
  by (simp add: late_ok_def NewLinePacer_def Second_def bucket_inv_def NewByteBucket_def wait_fits_def)

text \<open>Below that rate the wait overflows and becomes a millisecond: the loop polls, and three passes are not enough.\<close>

lemma tiny_rate_polls:
  "snd (bucket_attempt ((NewByteBucket 512 (1 / 10 ^ 8) 0)\<lparr>bbTokens := 0\<rparr>) 0 512) = Some Millisecond"
  "bucket_Take (\<lambda>_. Some 0) ((NewByteBucket 512 (1 / 10 ^ 8) 0)\<lparr>bbTokens := 0\<rparr>) 0 512 = None"
  by code_simp+

end
