(* ===== verification/Keeper_Ring.thy ===== *)
theory Keeper_Ring
  imports Go_Prelude "HOL-Library.Word"
begin

text \<open>
  The keeper's bounded buffer of uplink lines (\<open>src/internal/keeper/ring.go\<close>): a circular array
  addressed by \<open>start\<close> and \<open>len\<close>, with 64-bit sequence numbers.

  The locale \<open>line_log\<close> is the interface the keeper relies on: an abstraction to the list of
  retained entries, what a push does to that list and what a query answers. Its lemmas prove
  the resume guarantee once: for entries numbered consecutively, a query either returns every
  entry ever pushed behind the watermark, or reports the gap. The circular buffer is an
  interpretation.
\<close>

section \<open>Entries and the circular buffer\<close>

record Entry =
  eSeq :: "64 word"
  eEpoch :: "64 word"
  eLine :: string
  eTime :: int

definition zero_entry :: Entry where
  "zero_entry = \<lparr>eSeq = 0, eEpoch = 0, eLine = [], eTime = 0\<rparr>"

record ring =
  rBuf :: "Entry list"
  rCap :: nat
  rStart :: nat
  rLen :: nat
  rDropped :: "64 word"

definition newRing :: "int \<Rightarrow> ring" where
  "newRing capacity =
     (let c = (if capacity \<le> 0 then 4096 else nat capacity)
      in \<lparr>rBuf = replicate c zero_entry, rCap = c, rStart = 0, rLen = 0, rDropped = 0\<rparr>)"

definition ring_evict :: "ring \<Rightarrow> ring" where
  "ring_evict r = r\<lparr>rStart := (rStart r + 1) mod rCap r, rLen := rLen r - 1,
                     rDropped := rDropped r + 1\<rparr>"

definition ring_push :: "Entry \<Rightarrow> ring \<Rightarrow> ring \<times> bool" where
  "ring_push e r =
     (let evicted = (rLen r = rCap r);
          r1 = (if evicted then ring_evict r else r);
          idx = (rStart r1 + rLen r1) mod rCap r1
      in (r1\<lparr>rBuf := (rBuf r1)[idx := e], rLen := rLen r1 + 1\<rparr>, evicted))"

text \<open>The loop of \<open>since\<close> over the indices still to visit.\<close>

fun since_loop :: "64 word \<Rightarrow> ring \<Rightarrow> nat list \<Rightarrow> Entry list" where
  "since_loop afterSeq r [] = []"
| "since_loop afterSeq r (i # is) =
     (let e = rBuf r ! ((rStart r + i) mod rCap r)
      in if eSeq e > afterSeq then e # since_loop afterSeq r is else since_loop afterSeq r is)"

definition ring_since :: "64 word \<Rightarrow> ring \<Rightarrow> Entry list \<times> bool" where
  "ring_since afterSeq r =
     (if rLen r = 0 then ([], True)
      else let oldest = eSeq (rBuf r ! rStart r)
        in if afterSeq + 1 < oldest \<and> afterSeq \<noteq> 0 then ([], False)
           else (since_loop afterSeq r [0..<rLen r], True))"

definition ring_lastSeq :: "ring \<Rightarrow> 64 word" where
  "ring_lastSeq r =
     (if rLen r = 0 then 0 else eSeq (rBuf r ! ((rStart r + rLen r - 1) mod rCap r)))"

definition ring_droppedCount :: "ring \<Rightarrow> 64 word" where
  "ring_droppedCount r = rDropped r"

record Stats =
  Occupancy :: nat
  Capacity :: nat
  LastSeqStat :: "64 word"
  LastLineTime :: int
  Dropped :: "64 word"

definition ring_snapshot :: "ring \<Rightarrow> Stats" where
  "ring_snapshot r =
     (let st = \<lparr>Occupancy = rLen r, Capacity = rCap r, LastSeqStat = 0, LastLineTime = 0,
                Dropped = rDropped r\<rparr>
      in if rLen r > 0
         then let last = rBuf r ! ((rStart r + rLen r - 1) mod rCap r)
              in st\<lparr>LastSeqStat := eSeq last, LastLineTime := eTime last\<rparr>
         else st)"

section \<open>Abstraction to the list of retained entries\<close>

definition ring_inv :: "ring \<Rightarrow> bool" where
  "ring_inv r \<longleftrightarrow> rCap r > 0 \<and> length (rBuf r) = rCap r \<and> rStart r < rCap r \<and> rLen r \<le> rCap r"

definition ring_entries :: "ring \<Rightarrow> Entry list" where
  "ring_entries r = map (\<lambda>i. rBuf r ! ((rStart r + i) mod rCap r)) [0..<rLen r]"

text \<open>The specification of a push: a list that never grows beyond its capacity.\<close>

definition push_bounded :: "nat \<Rightarrow> 'a \<Rightarrow> 'a list \<Rightarrow> 'a list" where
  "push_bounded cap e es = (if length es = cap then tl es else es) @ [e]"

lemma length_ring_entries [simp]: "length (ring_entries r) = rLen r"
  by (simp add: ring_entries_def)

lemma nth_ring_entries [simp]:
  "i < rLen r \<Longrightarrow> ring_entries r ! i = rBuf r ! ((rStart r + i) mod rCap r)"
  by (simp add: ring_entries_def)

lemma ring_inv_newRing [simp]: "ring_inv (newRing c)"
  by (simp add: ring_inv_def newRing_def Let_def)

lemma ring_entries_newRing [simp]: "ring_entries (newRing c) = []"
  by (simp add: ring_entries_def newRing_def Let_def)

lemma mod_slot_eq:
  assumes "(a + i) mod c = (a + j) mod (c::nat)" and "i < c" and "j < c"
  shows "i = j"
proof -
  have "(int a + int i) mod int c = (int a + int j) mod int c"
    using assms(1) by (metis of_nat_add zmod_int)
  then have "int c dvd int i - int j" by (simp add: mod_eq_dvd_iff)
  moreover have "\<bar>int i - int j\<bar> < int c" using assms(2,3) by linarith
  ultimately show ?thesis using zdvd_not_zless [of "\<bar>int i - int j\<bar>" "int c"] by fastforce
qed

lemma ring_inv_evict:
  "ring_inv r \<Longrightarrow> rLen r = rCap r \<Longrightarrow> ring_inv (ring_evict r) \<and> rLen (ring_evict r) < rCap r"
  by (auto simp: ring_inv_def ring_evict_def)

lemma ring_entries_evict:
  assumes "ring_inv r" and "rLen r = rCap r"
  shows "ring_entries (ring_evict r) = tl (ring_entries r)"
proof (rule nth_equalityI)
  fix i assume "i < length (ring_entries (ring_evict r))"
  then have "i < rLen r - 1" by (simp add: ring_evict_def)
  then show "ring_entries (ring_evict r) ! i = tl (ring_entries r) ! i"
    by (simp add: nth_tl ring_evict_def mod_add_left_eq)
qed (simp add: ring_evict_def)

lemma ring_entries_store:
  assumes "ring_inv r" and "rLen r < rCap r"
  shows "ring_entries (r\<lparr>rBuf := (rBuf r)[(rStart r + rLen r) mod rCap r := e], rLen := rLen r + 1\<rparr>) =
         ring_entries r @ [e]"
proof (rule nth_equalityI)
  fix i assume "i < length (ring_entries (r\<lparr>rBuf := (rBuf r)[(rStart r + rLen r) mod rCap r := e],
                                            rLen := rLen r + 1\<rparr>))"
  then have i: "i < rLen r + 1" by simp
  show "ring_entries (r\<lparr>rBuf := (rBuf r)[(rStart r + rLen r) mod rCap r := e], rLen := rLen r + 1\<rparr>) ! i
        = (ring_entries r @ [e]) ! i"
  proof (cases "i = rLen r")
    case True
    then show ?thesis using assms by (simp add: ring_inv_def nth_append)
  next
    case False
    then have "(rStart r + i) mod rCap r \<noteq> (rStart r + rLen r) mod rCap r"
      using mod_slot_eq [of "rStart r" i "rCap r" "rLen r"] i assms(2) by auto
    then show ?thesis using False i by (simp add: nth_append)
  qed
qed simp

lemma ring_push_cases:
  obtains (full) "rLen r = rCap r" "ring_push e r =
      ((ring_evict r)\<lparr>rBuf := (rBuf r)[(rStart (ring_evict r) + rLen (ring_evict r)) mod rCap r := e],
        rLen := rLen (ring_evict r) + 1\<rparr>, True)"
  | (room) "rLen r \<noteq> rCap r" "ring_push e r =
      (r\<lparr>rBuf := (rBuf r)[(rStart r + rLen r) mod rCap r := e], rLen := rLen r + 1\<rparr>, False)"
  by (cases "rLen r = rCap r") (auto simp: ring_push_def Let_def ring_evict_def)

lemma ring_inv_store:
  "ring_inv r \<Longrightarrow> rLen r < rCap r \<Longrightarrow> ring_inv (r\<lparr>rBuf := (rBuf r)[i := e], rLen := rLen r + 1\<rparr>)"
  by (simp add: ring_inv_def)

lemma ring_evict_fields [simp]:
  "rBuf (ring_evict r) = rBuf r" "rCap (ring_evict r) = rCap r"
  by (simp_all add: ring_evict_def)

lemma ring_push_refines:
  assumes "ring_inv r"
  shows "ring_inv (fst (ring_push e r))"
    and "ring_entries (fst (ring_push e r)) = push_bounded (rCap r) e (ring_entries r)"
    and "snd (ring_push e r) \<longleftrightarrow> length (ring_entries r) = rCap r"
    and "rCap (fst (ring_push e r)) = rCap r"
proof -
  have "ring_inv (fst (ring_push e r)) \<and>
        ring_entries (fst (ring_push e r)) = push_bounded (rCap r) e (ring_entries r) \<and>
        (snd (ring_push e r) \<longleftrightarrow> length (ring_entries r) = rCap r) \<and>
        rCap (fst (ring_push e r)) = rCap r"
  proof (cases rule: ring_push_cases [of r e])
    case full
    note ev = ring_inv_evict [OF assms full(1)]
    show ?thesis
      using ring_inv_store [of "ring_evict r"] ring_entries_store [of "ring_evict r" e] ev
        ring_entries_evict [OF assms full(1)] full
      by (simp add: push_bounded_def)
  next
    case room
    then have "rLen r < rCap r" using assms by (simp add: ring_inv_def)
    then show ?thesis
      using ring_inv_store [OF assms] ring_entries_store [OF assms] room by (simp add: push_bounded_def)
  qed
  then show "ring_inv (fst (ring_push e r))"
    and "ring_entries (fst (ring_push e r)) = push_bounded (rCap r) e (ring_entries r)"
    and "snd (ring_push e r) \<longleftrightarrow> length (ring_entries r) = rCap r"
    and "rCap (fst (ring_push e r)) = rCap r" by auto
qed

lemma since_loop_filter:
  "since_loop w r is = filter (\<lambda>e. eSeq e > w) (map (\<lambda>i. rBuf r ! ((rStart r + i) mod rCap r)) is)"
  by (induction "is") (auto simp: Let_def)

lemma ring_since_refines:
  assumes "ring_inv r"
  shows "ring_since w r =
     (case ring_entries r of [] \<Rightarrow> ([], True)
      | e # _ \<Rightarrow> if w + 1 < eSeq e \<and> w \<noteq> 0 then ([], False)
                 else (filter (\<lambda>e. eSeq e > w) (ring_entries r), True))"
proof (cases "rLen r")
  case 0
  then show ?thesis by (simp add: ring_since_def ring_entries_def)
next
  case (Suc n)
  then obtain e es where es: "ring_entries r = e # es"
    by (metis length_0_conv length_ring_entries list.exhaust nat.distinct(1))
  have "e = ring_entries r ! 0" by (simp add: es)
  also have "\<dots> = rBuf r ! rStart r" using assms Suc by (simp add: ring_inv_def)
  finally have "eSeq (rBuf r ! rStart r) = eSeq e" by simp
  moreover have "since_loop w r [0..<rLen r] = filter (\<lambda>e. eSeq e > w) (ring_entries r)"
    by (simp add: since_loop_filter ring_entries_def)
  ultimately show ?thesis using Suc by (simp add: ring_since_def es del: since_loop.simps)
qed

lemma ring_lastSeq_refines:
  assumes "ring_inv r"
  shows "ring_lastSeq r = (if ring_entries r = [] then 0 else eSeq (last (ring_entries r)))"
proof (cases "rLen r")
  case 0
  then show ?thesis by (simp add: ring_lastSeq_def ring_entries_def)
next
  case (Suc n)
  then have "ring_entries r \<noteq> []" by (metis length_0_conv length_ring_entries nat.distinct(1))
  then show ?thesis using Suc by (simp add: last_conv_nth ring_lastSeq_def)
qed

section \<open>The interface of a line log\<close>

locale line_log =
  fixes entries :: "'r \<Rightarrow> Entry list"
    and inv :: "'r \<Rightarrow> bool"
    and cap :: "'r \<Rightarrow> nat"
    and push :: "Entry \<Rightarrow> 'r \<Rightarrow> 'r \<times> bool"
    and since :: "64 word \<Rightarrow> 'r \<Rightarrow> Entry list \<times> bool"
  assumes cap_pos: "inv r \<Longrightarrow> cap r > 0 \<and> length (entries r) \<le> cap r"
    and push_inv: "inv r \<Longrightarrow> inv (fst (push e r)) \<and> cap (fst (push e r)) = cap r"
    and push_entries: "inv r \<Longrightarrow> entries (fst (push e r)) = push_bounded (cap r) e (entries r)"
    and push_evicts: "inv r \<Longrightarrow> snd (push e r) \<longleftrightarrow> length (entries r) = cap r"
    and since_entries: "inv r \<Longrightarrow> since w r =
          (case entries r of [] \<Rightarrow> ([], True)
           | e # _ \<Rightarrow> if w + 1 < eSeq e \<and> w \<noteq> 0 then ([], False)
                      else (filter (\<lambda>e. eSeq e > w) (entries r), True))"
begin

definition push_all :: "Entry list \<Rightarrow> 'r \<Rightarrow> 'r" where
  "push_all es r = fold (\<lambda>e r. fst (push e r)) es r"

lemma push_all_inv: "inv r \<Longrightarrow> inv (push_all es r) \<and> cap (push_all es r) = cap r"
  unfolding push_all_def by (induction es arbitrary: r) (auto simp: push_inv)

text \<open>After any number of pushes on an empty log, the most recent ones are retained.\<close>

lemma push_all_entries:
  assumes "inv r" and "entries r = []"
  shows "entries (push_all es r) = drop (length es - cap r) es"
proof (induction es rule: rev_induct)
  case Nil
  then show ?case by (simp add: push_all_def assms)
next
  case (snoc e es)
  have inv: "inv (push_all es r)" "cap (push_all es r) = cap r" using push_all_inv assms(1) by auto
  have "entries (push_all (es @ [e]) r) = push_bounded (cap r) e (drop (length es - cap r) es)"
    using push_entries [OF inv(1), of e] inv(2) snoc.IH by (simp add: push_all_def)
  also have "\<dots> = drop (length (es @ [e]) - cap r) (es @ [e])"
    using cap_pos [OF assms(1)] by (auto simp: push_bounded_def drop_Suc drop_tl Suc_diff_le)
  finally show ?case .
qed

end

text \<open>
  Entries numbered one after the other from 1, as \<open>nextSeq\<close> hands the numbers out over the
  lifetime of a keeper.
\<close>

definition numbered :: "Entry list \<Rightarrow> bool" where
  "numbered es \<longleftrightarrow> list_all (\<lambda>i. unat (eSeq (es ! i)) = i + 1) [0..<length es]"

lemma numbered_nth: "numbered es \<Longrightarrow> i < length es \<Longrightarrow> unat (eSeq (es ! i)) = Suc i"
  by (simp add: numbered_def list_all_iff)

lemma numbered_split_filter:
  assumes "numbered es" and "k \<le> length es" and "k \<le> unat w"
  shows "filter (\<lambda>e. eSeq e > w) (drop k es) = filter (\<lambda>e. eSeq e > w) es"
proof -
  have "filter (\<lambda>e. eSeq e > w) (take k es) = []"
    using assms by (auto simp: filter_empty_conv in_set_conv_nth word_less_nat_alt numbered_nth)
  then show ?thesis by (metis append_Nil append_take_drop_id filter_append)
qed

lemma unat_plus_one: "w \<noteq> - 1 \<Longrightarrow> unat (w + 1) = unat w + 1" for w :: "64 word"
  by (metis add.commute unatSuc add_eq_0_iff Suc_eq_plus1)

context line_log
begin

text \<open>
  The resume guarantee of a log: behind a watermark the answer is complete or a gap is reported.
\<close>

lemma since_push_all:
  assumes inv: "inv r" "entries r = []" and num: "numbered es" and w: "w \<noteq> 0" "w \<noteq> - 1"
  shows "since w (push_all es r) =
    (if unat w < length es - cap r then ([], False) else (filter (\<lambda>e. eSeq e > w) es, True))"
proof (cases "es = []")
  case True
  then show ?thesis using since_entries [of r w] inv by (simp add: push_all_def)
next
  case False
  let ?k = "length es - cap r"
  have k: "?k < length es" using False cap_pos [OF inv(1)] by auto
  have ents: "entries (push_all es r) = es ! ?k # drop (Suc ?k) es"
    using push_all_entries [OF inv] k by (simp add: Cons_nth_drop_Suc)
  have inv': "inv (push_all es r)" using push_all_inv inv(1) by blast
  have "w + 1 < eSeq (es ! ?k) \<longleftrightarrow> unat w < ?k"
    using numbered_nth [OF num k] unat_plus_one [OF w(2)] by (simp add: word_less_nat_alt)
  moreover have "filter (\<lambda>e. eSeq e > w) (es ! ?k # drop (Suc ?k) es) = filter (\<lambda>e. eSeq e > w) es"
    if "\<not> unat w < ?k"
    using numbered_split_filter [OF num, of ?k w] k that by (simp add: Cons_nth_drop_Suc)
  ultimately show ?thesis using since_entries [OF inv', of w] w(1) by (simp add: ents)
qed

text \<open>The watermark 0 asks for everything retained; older entries are left out without a report.\<close>

lemma since_0_push_all:
  assumes inv: "inv r" "entries r = []" and num: "numbered es"
  shows "since 0 (push_all es r) = (drop (length es - cap r) es, True)"
proof -
  have inv': "inv (push_all es r)" using push_all_inv inv(1) by blast
  have "eSeq e > 0" if "e \<in> set es" for e
    using that num by (auto simp: in_set_conv_nth word_less_nat_alt numbered_nth)
  then have "filter (\<lambda>e. eSeq e > 0) (drop k es) = drop k es" for k
    by (meson filter_True in_set_dropD)
  then have "filter (\<lambda>e. eSeq e > 0) (entries (push_all es r)) = entries (push_all es r)"
    using push_all_entries [OF inv] by simp
  then have "since 0 (push_all es r) = (entries (push_all es r), True)"
    using since_entries [OF inv', of 0] by (cases "entries (push_all es r)") (simp_all del: filter.simps)
  then show ?thesis using push_all_entries [OF inv] by simp
qed

end

interpretation rlog: line_log ring_entries ring_inv rCap ring_push ring_since
  by unfold_locales (simp_all add: ring_push_refines ring_since_refines, simp add: ring_inv_def)

section \<open>Properties\<close>

text \<open>
  C1. Resume from the ring: whatever lines the read loop pushed on a fresh ring, numbered
  consecutively, a query behind a nonzero watermark answers like an unbounded log (every line
  with a greater number, oldest first), except exactly when a line behind the watermark has been
  evicted, and then the gap is reported: no answer is silently truncated.
\<close>

theorem ring_since_complete:
  assumes "numbered es" and "w \<noteq> 0" and "w \<noteq> - 1"
  shows "ring_since w (fold (\<lambda>e r. fst (ring_push e r)) es (newRing capacity)) =
    (if unat w < length es - rCap (newRing capacity) then ([], False)
     else (filter (\<lambda>e. eSeq e > w) es, True))"
  using rlog.since_push_all [of "newRing capacity" es w] assms by (simp add: rlog.push_all_def)

theorem ring_since_complete_witness:
  "let es = map (\<lambda>i. \<lparr>eSeq = word_of_nat i, eEpoch = 1, eLine = ''x'', eTime = 0\<rparr>) [1..<8];
       r = fold (\<lambda>e r. fst (ring_push e r)) es (newRing 3)
   in ring_since 3 r = ([], False) \<and> ring_since 5 r = (filter (\<lambda>e. eSeq e > 5) es, True) \<and>
      length (fst (ring_since 5 r)) = 2"
proof -
  let ?es = "map (\<lambda>i. \<lparr>eSeq = word_of_nat i, eEpoch = 1, eLine = ''x'', eTime = 0\<rparr>) [1..<8]"
  have num: "numbered ?es" by code_simp
  have "rCap (newRing 3) = 3" by (simp add: newRing_def)
  moreover have "length (filter (\<lambda>e. eSeq e > 5) ?es) = 2" by code_simp
  ultimately show ?thesis
    using ring_since_complete [OF num, of 3 3] ring_since_complete [OF num, of 5 3]
    by (simp add: Let_def)
qed

text \<open>
  C13. The circular array implements a bounded list: a push keeps the invariant, changes the retained
  entries as appending to a list of at most \<open>cap\<close> entries does, reports an eviction exactly when
  the list was full, and afterwards the newest sequence number is the one pushed.
\<close>

theorem ring_push_refinement:
  assumes "ring_inv r"
  shows "ring_inv (fst (ring_push e r)) \<and>
         ring_entries (fst (ring_push e r)) = push_bounded (rCap r) e (ring_entries r) \<and>
         (snd (ring_push e r) \<longleftrightarrow> length (ring_entries r) = rCap r) \<and>
         ring_lastSeq (fst (ring_push e r)) = eSeq e"
  using ring_push_refines [OF assms, of e] ring_lastSeq_refines [of "fst (ring_push e r)"]
  by (simp add: push_bounded_def)

theorem ring_push_refinement_witness:
  "ring_lastSeq (fst (ring_push \<lparr>eSeq = 9, eEpoch = 1, eLine = ''x'', eTime = 0\<rparr> (newRing 2))) = 9"
  using ring_push_refinement [OF ring_inv_newRing, of "\<lparr>eSeq = 9, eEpoch = 1, eLine = ''x'', eTime = 0\<rparr>" 2]
  by simp

end
