(* ===== verification/Keeper_Blob.thy ===== *)
theory Keeper_Blob
  imports Go_Prelude
begin

text \<open>
  The keeper's store of derived state (\<open>src/internal/keeper/blob.go\<close>): opaque values under
  string keys, with the insertion order of the keys kept beside the map. A pushed mode is a
  string; a mode that is none of the three does nothing.

  The locale \<open>blob_interface\<close> states the contract an attaching client relies on: what a
  snapshot holds after each kind of push and after a clear. Its lemma \<open>snapshot_resolves\<close>
  computes, key by key, the state after any history of pushes; the map with its order list is
  an interpretation.
\<close>

type_synonym BlobMode = string

definition BlobModeAppend :: BlobMode where "BlobModeAppend = ''append''"
definition BlobModeReplace :: BlobMode where "BlobModeReplace = ''replace''"
definition BlobModeDelete :: BlobMode where "BlobModeDelete = ''delete''"

lemma blob_modes_distinct [simp]:
  "BlobModeAppend \<noteq> BlobModeReplace" "BlobModeAppend \<noteq> BlobModeDelete"
  "BlobModeReplace \<noteq> BlobModeAppend" "BlobModeReplace \<noteq> BlobModeDelete"
  "BlobModeDelete \<noteq> BlobModeAppend" "BlobModeDelete \<noteq> BlobModeReplace"
  by (simp_all add: BlobModeAppend_def BlobModeReplace_def BlobModeDelete_def)

record blobStore =
  bEntries :: "(string, string list) gomap"
  bOrder :: "string list"

type_synonym BlobEntry = "string \<times> string list"

definition newBlobStore :: blobStore where
  "newBlobStore = \<lparr>bEntries = [], bOrder = []\<rparr>"

text \<open>The scan that removes the first occurrence of the key from the order.\<close>

fun remove_key :: "string \<Rightarrow> string list \<Rightarrow> string list" where
  "remove_key key [] = []"
| "remove_key key (k # ks) = (if k = key then ks else k # remove_key key ks)"

definition note_key :: "string \<Rightarrow> blobStore \<Rightarrow> blobStore" where
  "note_key key b = (if map_of (bEntries b) key = None then b\<lparr>bOrder := bOrder b @ [key]\<rparr> else b)"

definition blob_Push :: "string \<Rightarrow> BlobMode \<Rightarrow> string \<Rightarrow> blobStore \<Rightarrow> blobStore" where
  "blob_Push key mode val b =
     (if mode = BlobModeAppend
      then let b1 = note_key key b
           in b1\<lparr>bEntries := map_put key (map_get [] (bEntries b) key @ [val]) (bEntries b)\<rparr>
      else if mode = BlobModeReplace
      then let b1 = note_key key b in b1\<lparr>bEntries := map_put key [val] (bEntries b)\<rparr>
      else if mode = BlobModeDelete
      then if map_of (bEntries b) key \<noteq> None
           then b\<lparr>bEntries := map_del key (bEntries b), bOrder := remove_key key (bOrder b)\<rparr>
           else b
      else b)"

definition blob_Snapshot :: "blobStore \<Rightarrow> BlobEntry list" where
  "blob_Snapshot b = map (\<lambda>key. (key, map_get [] (bEntries b) key)) (bOrder b)"

definition blob_Clear :: "blobStore \<Rightarrow> blobStore" where
  "blob_Clear b = b\<lparr>bEntries := [], bOrder := []\<rparr>"

section \<open>Invariant\<close>

definition blob_inv :: "blobStore \<Rightarrow> bool" where
  "blob_inv b \<longleftrightarrow> wf_map (bEntries b) \<and> distinct (bOrder b) \<and> set (bOrder b) = fst ` set (bEntries b)"

lemma remove_key_remove1: "remove_key key ks = remove1 key ks"
  by (induction ks) auto

lemma blob_inv_new [simp]: "blob_inv newBlobStore"
  by (simp add: blob_inv_def newBlobStore_def)

lemma blob_inv_Clear [simp]: "blob_inv (blob_Clear b)"
  by (simp add: blob_inv_def blob_Clear_def)

lemma note_key_absent: "key \<notin> fst ` set (bEntries b) \<Longrightarrow> note_key key b = b\<lparr>bOrder := bOrder b @ [key]\<rparr>"
  by (simp add: note_key_def map_of_eq_None_iff)

lemma note_key_present: "key \<in> fst ` set (bEntries b) \<Longrightarrow> note_key key b = b"
  by (metis note_key_def map_of_None_iff)

lemma blob_inv_put:
  "blob_inv b \<Longrightarrow> blob_inv ((note_key key b)\<lparr>bEntries := map_put key vs (bEntries b)\<rparr>)"
  by (cases "key \<in> fst ` set (bEntries b)")
    (auto simp: blob_inv_def note_key_absent note_key_present)

lemma blob_inv_Push [simp]: "blob_inv b \<Longrightarrow> blob_inv (blob_Push key mode val b)"
  using blob_inv_put [of b key]
  by (auto simp: blob_Push_def Let_def)
    (auto simp: blob_inv_def remove_key_remove1)

lemma blob_lookup:
  assumes "blob_inv b"
  shows "map_of (blob_Snapshot b) k = map_of (bEntries b) k"
proof (cases "map_of (bEntries b) k")
  case None
  then have "k \<notin> set (bOrder b)"
    using assms by (simp add: blob_inv_def map_of_None_iff)
  then show ?thesis using None by (simp add: blob_Snapshot_def map_of_tabulate)
next
  case (Some vs)
  then have "k \<in> set (bOrder b)"
    using assms by (metis blob_inv_def map_of_None_iff option.distinct(1))
  then show ?thesis using Some by (simp add: blob_Snapshot_def map_of_tabulate map_get_def)
qed

lemma keys_Snapshot: "map fst (blob_Snapshot b) = bOrder b"
  by (simp add: blob_Snapshot_def comp_def)

section \<open>The contract of the store\<close>

text \<open>What a push does to the value under its own key.\<close>

definition resolve1 :: "BlobMode \<Rightarrow> string \<Rightarrow> string list option \<Rightarrow> string list option" where
  "resolve1 mode val cur =
     (if mode = BlobModeAppend then Some ((case cur of None \<Rightarrow> [] | Some vs \<Rightarrow> vs) @ [val])
      else if mode = BlobModeReplace then Some [val]
      else if mode = BlobModeDelete then None else cur)"

text \<open>The value under one key after a history of pushes, of which only those to the key count.\<close>

definition resolve :: "string \<Rightarrow> (string \<times> BlobMode \<times> string) list \<Rightarrow> string list option" where
  "resolve k hist = fold (\<lambda>(_, mode, val) cur. resolve1 mode val cur) (filter (\<lambda>(k', _). k' = k) hist) None"

locale blob_interface =
  fixes inv :: "'b \<Rightarrow> bool"
    and empty :: 'b
    and push :: "string \<Rightarrow> BlobMode \<Rightarrow> string \<Rightarrow> 'b \<Rightarrow> 'b"
    and snapshot :: "'b \<Rightarrow> BlobEntry list"
    and clear :: "'b \<Rightarrow> 'b"
  assumes inv_empty: "inv empty"
    and inv_push: "inv b \<Longrightarrow> inv (push k mode v b)"
    and inv_clear: "inv b \<Longrightarrow> inv (clear b)"
    and keys_distinct: "inv b \<Longrightarrow> distinct (map fst (snapshot b))"
    and snapshot_empty: "snapshot empty = []"
    and snapshot_clear: "inv b \<Longrightarrow> snapshot (clear b) = []"
    and snapshot_push: "inv b \<Longrightarrow> map_of (snapshot (push k mode v b)) j =
          (if j = k then resolve1 mode v (map_of (snapshot b) j) else map_of (snapshot b) j)"
begin

definition push_all :: "(string \<times> BlobMode \<times> string) list \<Rightarrow> 'b \<Rightarrow> 'b" where
  "push_all hist b = fold (\<lambda>(k, mode, v). push k mode v) hist b"

lemma inv_push_all: "inv b \<Longrightarrow> inv (push_all hist b)"
  unfolding push_all_def by (induction hist arbitrary: b) (auto simp: inv_push split: prod.splits)

lemma snapshot_resolves:
  assumes "inv b" and "snapshot b = []"
  shows "map_of (snapshot (push_all hist b)) k = resolve k hist"
proof (induction hist rule: rev_induct)
  case Nil
  then show ?case by (simp add: push_all_def resolve_def assms)
next
  case (snoc x hist)
  obtain k' mode v where x: "x = (k', mode, v)" by (cases x)
  have "map_of (snapshot (push_all (hist @ [x]) b)) k =
      map_of (snapshot (push k' mode v (push_all hist b))) k"
    by (simp add: push_all_def x)
  then show ?case
    using snoc snapshot_push [OF inv_push_all [OF assms(1)]]
    by (cases "k = k'") (simp_all add: resolve_def x)
qed

text \<open>Nothing of what was pushed before a clear survives it.\<close>

lemma clear_forgets:
  "inv b \<Longrightarrow> map_of (snapshot (push_all hist (clear b))) k = resolve k hist"
  by (simp add: snapshot_resolves inv_clear snapshot_clear)

end

lemma entries_Push:
  "map_of (bEntries (blob_Push k mode v b)) j =
   (if j = k then resolve1 mode v (map_of (bEntries b) j) else map_of (bEntries b) j)"
  by (simp add: blob_Push_def Let_def note_key_def resolve1_def map_get_def)

interpretation bs: blob_interface blob_inv newBlobStore blob_Push blob_Snapshot blob_Clear
proof
  fix b k mode v j
  assume "blob_inv b"
  then show "map_of (blob_Snapshot (blob_Push k mode v b)) j =
      (if j = k then resolve1 mode v (map_of (blob_Snapshot b) j) else map_of (blob_Snapshot b) j)"
    by (simp add: blob_lookup entries_Push)
next
  fix b
  assume "blob_inv b"
  then show "distinct (map fst (blob_Snapshot b))" by (simp add: keys_Snapshot blob_inv_def)
qed (simp_all add: blob_Snapshot_def newBlobStore_def blob_Clear_def, simp_all add: blob_inv_def)

section \<open>Properties\<close>

text \<open>
  C14. The snapshot an attaching client receives holds, for every key, exactly the value that the
  pushes to that key since the last clear resolve to (appends accumulate in order, a replace
  leaves one value, a delete removes the key, an unknown mode does nothing), each key once.
\<close>

theorem blob_Snapshot_resolves:
  assumes "blob_inv b"
  shows "map_of (blob_Snapshot (fold (\<lambda>(k, mode, v). blob_Push k mode v) hist (blob_Clear b))) k = resolve k hist \<and>
    distinct (map fst (blob_Snapshot (fold (\<lambda>(k, mode, v). blob_Push k mode v) hist (blob_Clear b))))"
  using bs.clear_forgets [OF assms] bs.keys_distinct bs.inv_push_all [of "blob_Clear b" hist]
  by (simp add: bs.push_all_def)

theorem blob_Snapshot_resolves_witness:
  "map_of (blob_Snapshot (fold (\<lambda>(k, mode, v). blob_Push k mode v)
     [(''isupport'', ''append'', ''a''), (''cloak'', ''replace'', ''x''), (''isupport'', ''append'', ''b''),
      (''cloak'', ''delete'', []), (''isupport'', ''bogus'', ''c'')] (blob_Clear newBlobStore))) ''isupport'' =
   Some [''a'', ''b'']"
proof -
  let ?h = "[(''isupport'', ''append'', ''a''), (''cloak'', ''replace'', ''x''), (''isupport'', ''append'', ''b''),
      (''cloak'', ''delete'', []), (''isupport'', ''bogus'', ''c'')]"
  have "resolve ''isupport'' ?h = Some [''a'', ''b'']" by code_simp
  then show ?thesis using blob_Snapshot_resolves [OF blob_inv_new, of ?h "''isupport''"] by simp
qed

end
