(* ===== verification/Keeper_Core.thy ===== *)
theory Keeper_Core
  imports Keeper_Ring Keeper_Blob IRC_Message
begin

text \<open>
  One network's keeper (\<open>src/internal/keeper/keeper.go\<close>): the connection slot, the epoch and
  sequence counters, the resume watermark, the ring, the derived state and the two kinds of
  subscription.

  The methods are split at their critical sections: a definition per section that runs under
  \<open>k.mu\<close> or under a subscription lock. The relation \<open>keeper_step\<close> then interleaves the
  goroutines that run them: any number of dials and closes and one read loop per connection,
  each with a program counter. A connection is its identity, a number; the context and the
  \<open>done\<close> channel that the code stores beside it belong to the same connection and are the
  \<open>cancelled\<close> set and the program counter \<open>LDone\<close>. What the network does (a dial fails, a line
  or an error is read, a write fails) is free in the rules.
\<close>

section \<open>State\<close>

datatype State = NotConnected | Connected

datatype EventKind = EventConnected | EventDisconnected

record Event =
  evKind :: EventKind
  evEpoch :: "64 word"
  evErr :: "string option"

text \<open>A line subscription: the buffered channel and whether its overflow channel is closed.\<close>

record lineSub =
  lsQueue :: "Entry list"
  lsOverflow :: bool

record Keeper =
  kConn :: "nat option"
  kState :: State
  kEpoch :: "64 word"
  kLastErr :: "string option"
  kSeqCounter :: "64 word"
  kRing :: ring
  kBlob :: blobStore
  kDelivered :: "64 word"
  kSubs :: "(nat, Event list) gomap"
  kLineSubs :: "(nat, lineSub) gomap"

definition New :: "int \<Rightarrow> Keeper" where
  "New ringCapacity =
     \<lparr>kConn = None, kState = NotConnected, kEpoch = 0, kLastErr = None, kSeqCounter = 0,
      kRing = newRing ringCapacity, kBlob = newBlobStore, kDelivered = 0, kSubs = [], kLineSubs = []\<rparr>"

section \<open>Queries, watermark and derived state\<close>

definition keeper_State :: "Keeper \<Rightarrow> State \<times> 64 word" where
  "keeper_State k = (kState k, kEpoch k)"

definition LastError :: "Keeper \<Rightarrow> string option" where
  "LastError k = kLastErr k"

definition LastSeq :: "Keeper \<Rightarrow> 64 word" where
  "LastSeq k = ring_lastSeq (kRing k)"

definition Since :: "64 word \<Rightarrow> Keeper \<Rightarrow> Entry list \<times> bool" where
  "Since afterSeq k = ring_since afterSeq (kRing k)"

definition DroppedCount :: "Keeper \<Rightarrow> 64 word" where
  "DroppedCount k = ring_droppedCount (kRing k)"

definition PushBlob :: "string \<Rightarrow> BlobMode \<Rightarrow> string \<Rightarrow> Keeper \<Rightarrow> Keeper" where
  "PushBlob key mode val k = k\<lparr>kBlob := blob_Push key mode val (kBlob k)\<rparr>"

definition BlobSnapshot :: "Keeper \<Rightarrow> BlobEntry list" where
  "BlobSnapshot k = blob_Snapshot (kBlob k)"

definition AckSeq :: "64 word \<Rightarrow> Keeper \<Rightarrow> Keeper" where
  "AckSeq seq k = (if seq > kDelivered k then k\<lparr>kDelivered := seq\<rparr> else k)"

definition DeliveredSeq :: "Keeper \<Rightarrow> 64 word" where
  "DeliveredSeq k = kDelivered k"

definition keeper_Stats :: "Keeper \<Rightarrow> Stats" where
  "keeper_Stats k = ring_snapshot (kRing k)"

section \<open>Subscriptions\<close>

definition Subscribe :: "nat \<Rightarrow> Keeper \<Rightarrow> Keeper" where
  "Subscribe ch k = k\<lparr>kSubs := map_put ch [] (kSubs k)\<rparr>"

definition Unsubscribe :: "nat \<Rightarrow> Keeper \<Rightarrow> Keeper" where
  "Unsubscribe ch k = k\<lparr>kSubs := map_del ch (kSubs k)\<rparr>"

text \<open>A send that never blocks, on the event channel with its buffer of 16.\<close>

definition publish :: "Event \<Rightarrow> Keeper \<Rightarrow> Keeper" where
  "publish ev k = k\<lparr>kSubs := map (\<lambda>(ch, q). (ch, if length q < 16 then q @ [ev] else q)) (kSubs k)\<rparr>"

definition lineSubBuffer :: nat where "lineSubBuffer = 8192"

definition SubscribeLines :: "nat \<Rightarrow> Keeper \<Rightarrow> Keeper" where
  "SubscribeLines ch k = k\<lparr>kLineSubs := map_put ch \<lparr>lsQueue = [], lsOverflow = False\<rparr> (kLineSubs k)\<rparr>"

definition UnsubscribeLines :: "nat \<Rightarrow> Keeper \<Rightarrow> Keeper" where
  "UnsubscribeLines ch k = k\<lparr>kLineSubs := map_del ch (kLineSubs k)\<rparr>"

definition offer_line :: "Entry \<Rightarrow> lineSub \<Rightarrow> lineSub" where
  "offer_line e s = (if length (lsQueue s) < lineSubBuffer then s\<lparr>lsQueue := lsQueue s @ [e]\<rparr>
                     else s\<lparr>lsOverflow := True\<rparr>)"

definition publishLine :: "Entry \<Rightarrow> Keeper \<Rightarrow> Keeper" where
  "publishLine e k = k\<lparr>kLineSubs := map (\<lambda>(ch, s). (ch, offer_line e s)) (kLineSubs k)\<rparr>"

definition hasLineSubscribers :: "Keeper \<Rightarrow> bool" where
  "hasLineSubscribers k \<longleftrightarrow> length (kLineSubs k) > 0"

text \<open>The receive operation of a subscriber's goroutine on its line channel.\<close>

definition recv_line :: "nat \<Rightarrow> Keeper \<Rightarrow> Keeper \<times> Entry list" where
  "recv_line ch k =
     (case map_of (kLineSubs k) ch of
        None \<Rightarrow> (k, [])
      | Some s \<Rightarrow>
          (case lsQueue s of
             [] \<Rightarrow> (k, [])
           | e # q \<Rightarrow> (k\<lparr>kLineSubs := map_put ch (s\<lparr>lsQueue := q\<rparr>) (kLineSubs k)\<rparr>, [e])))"

section \<open>Dial, Close and the read loop, section by section\<close>

datatype keeper_error = ErrAlreadyConnected | errNotConnected

definition Dial_check :: "Keeper \<Rightarrow> keeper_error + unit" where
  "Dial_check k = (if kConn k \<noteq> None then Inl ErrAlreadyConnected else Inr ())"

definition Dial_commit :: "nat \<Rightarrow> Keeper \<Rightarrow> keeper_error + Keeper" where
  "Dial_commit c k =
     (if kConn k \<noteq> None then Inl ErrAlreadyConnected
      else Inr (k\<lparr>kEpoch := kEpoch k + 1, kConn := Some c, kState := Connected, kLastErr := None\<rparr>))"

text \<open>The locked section of \<open>Close\<close>; it returns the connection that the rest of it closes.\<close>

definition Close_detach :: "Keeper \<Rightarrow> Keeper \<times> nat option" where
  "Close_detach k =
     (case kConn k of
        None \<Rightarrow> (k, None)
      | Some c \<Rightarrow> (k\<lparr>kConn := None, kState := NotConnected, kLastErr := None\<rparr>, Some c))"

definition keeper_clear_blob :: "Keeper \<Rightarrow> Keeper" where
  "keeper_clear_blob k = k\<lparr>kBlob := blob_Clear (kBlob k)\<rparr>"

text \<open>The whole of \<open>Close\<close> with no interleaving; \<open>sockClose\<close> is what closing the socket returns.\<close>

definition Close :: "(nat \<Rightarrow> string option) \<Rightarrow> Keeper \<Rightarrow> Keeper \<times> string option" where
  "Close sockClose k =
     (case Close_detach k of
        (k1, None) \<Rightarrow> (k1, None)
      | (k1, Some c) \<Rightarrow> (keeper_clear_blob k1, sockClose c))"

definition Retire :: "(nat \<Rightarrow> string option) \<Rightarrow> Keeper \<Rightarrow> Keeper" where
  "Retire sockClose k = (fst (Close sockClose k))\<lparr>kSubs := [], kLineSubs := []\<rparr>"

text \<open>A write on the current connection; \<open>net\<close> is what the socket answers.\<close>

definition WriteLine :: "(nat \<Rightarrow> string \<Rightarrow> string option) \<Rightarrow> string \<Rightarrow> Keeper \<Rightarrow> (keeper_error + string) option" where
  "WriteLine net line k =
     (case kConn k of
        None \<Rightarrow> Some (Inl errNotConnected)
      | Some c \<Rightarrow> map_option Inr (net c line))"

definition QuitClose :: "(nat \<Rightarrow> string \<Rightarrow> string option) \<Rightarrow> (nat \<Rightarrow> string option) \<Rightarrow> string \<Rightarrow> Keeper \<Rightarrow>
    Keeper \<times> (keeper_error + string) option" where
  "QuitClose net sockClose line k =
     (case kConn k of
        None \<Rightarrow> (k, Some (Inl errNotConnected))
      | Some c \<Rightarrow>
          (case Close sockClose k of
             (k1, closeErr) \<Rightarrow>
               (k1, map_option Inr (case net c line of Some e \<Rightarrow> Some e | None \<Rightarrow> closeErr))))"

definition nextSeq :: "Keeper \<Rightarrow> Keeper \<times> 64 word" where
  "nextSeq k = (k\<lparr>kSeqCounter := kSeqCounter k + 1\<rparr>, kSeqCounter k + 1)"

definition push_line :: "Entry \<Rightarrow> Keeper \<Rightarrow> Keeper \<times> bool" where
  "push_line e k = (case ring_push e (kRing k) of (r, evicted) \<Rightarrow> (k\<lparr>kRing := r\<rparr>, evicted))"

definition isServerPing :: "message \<Rightarrow> bool" where
  "isServerPing msg = equal_fold (Command msg) ''PING''"

definition pongFor :: "message \<Rightarrow> string" where
  "pongFor msg = ''PONG :'' @ Trailing msg"

text \<open>The line the loop answers with, when the line just read is a PING.\<close>

definition ping_reply :: "string \<Rightarrow> string option" where
  "ping_reply line =
     (case Parse line of
        Inl _ \<Rightarrow> None
      | Inr msg \<Rightarrow> if isServerPing msg then Some (pongFor msg) else None)"

definition ring_overflow_err :: string where
  "ring_overflow_err = ''ring overflow: no subscriber consumed line before eviction''"

text \<open>The locked section of the loop's cleanup; it returns \<open>stillCurrent\<close>.\<close>

definition readLoop_detach :: "nat \<Rightarrow> bool \<Rightarrow> string \<Rightarrow> bool \<Rightarrow> Keeper \<Rightarrow> Keeper \<times> bool" where
  "readLoop_detach c deliberate exitErr ringOverflowClose k =
     (if kConn k = Some c
      then let k1 = k\<lparr>kConn := None, kState := NotConnected\<rparr>;
               k2 = (if \<not> deliberate then k1\<lparr>kLastErr := Some exitErr\<rparr> else k1);
               k3 = (if ringOverflowClose then k2\<lparr>kDelivered := 0\<rparr> else k2)
           in (k3, True)
      else (k, False))"

section \<open>Interleaving of the goroutines\<close>

text \<open>
  Where a read loop stands. \<open>LSpawn\<close> is the dialing goroutine between its locked section and
  \<open>go k.readLoop\<close>; \<open>LExit\<close> is past the loop; \<open>LLeaving\<close> has looked at the context and stands before
  the locked section of the cleanup; \<open>LClear\<close> and \<open>LPublish\<close> are the cleanup after it. Two fields of
  the state are histories that no rule reads: \<open>wire\<close>, the lines the loops have taken from their sockets,
  each with the epoch of its connection, and \<open>published\<close>, the events handed to \<open>publish\<close>.
\<close>

datatype loop_pc =
    LSpawn
  | LReading
  | LRead string
  | LNumbered Entry
  | LPushed Entry bool
  | LPublished Entry bool
  | LExit string bool
  | LLeaving bool string bool
  | LClear bool string
  | LPublish bool string
  | LDone

datatype closer_pc = CClear | CCancel

record sys =
  keeper :: Keeper
  loops :: "nat \<rightharpoonup> 64 word \<times> loop_pc"
  cancelled :: "nat set"
  dials :: nat
  closers :: "(nat \<times> closer_pc) list"
  published :: "Event list"
  wire :: "(64 word \<times> string) list"

definition init_sys :: "int \<Rightarrow> sys" where
  "init_sys cap = \<lparr>keeper = New cap, loops = Map.empty, cancelled = {}, dials = 0, closers = [],
                   published = [], wire = []\<rparr>"

definition set_pc :: "nat \<Rightarrow> 64 word \<Rightarrow> loop_pc \<Rightarrow> sys \<Rightarrow> sys" where
  "set_pc c ep pc s = s\<lparr>loops := (loops s)(c \<mapsto> (ep, pc))\<rparr>"

definition emit :: "Event \<Rightarrow> sys \<Rightarrow> sys" where
  "emit ev s = s\<lparr>keeper := publish ev (keeper s), published := published s @ [ev]\<rparr>"

inductive keeper_step :: "sys \<Rightarrow> sys \<Rightarrow> bool" where
  dial_start: "Dial_check (keeper s) = Inr () \<Longrightarrow> keeper_step s (s\<lparr>dials := dials s + 1\<rparr>)"
| dial_fail: "dials s > 0 \<Longrightarrow> keeper_step s (s\<lparr>dials := dials s - 1\<rparr>)"
| dial_lost: "dials s > 0 \<Longrightarrow> Dial_commit c (keeper s) = Inl err \<Longrightarrow>
    keeper_step s (s\<lparr>dials := dials s - 1\<rparr>)"
| dial_commit: "dials s > 0 \<Longrightarrow> loops s c = None \<Longrightarrow> Dial_commit c (keeper s) = Inr k \<Longrightarrow>
    keeper_step s (set_pc c (kEpoch k) LSpawn (s\<lparr>dials := dials s - 1, keeper := k\<rparr>))"
| dial_spawn: "loops s c = Some (ep, LSpawn) \<Longrightarrow>
    keeper_step s (set_pc c ep LReading (emit \<lparr>evKind = EventConnected, evEpoch = ep, evErr = None\<rparr> s))"
| read_line: "loops s c = Some (ep, LReading) \<Longrightarrow>
    keeper_step s (set_pc c ep (LRead line) (s\<lparr>wire := wire s @ [(ep, line)]\<rparr>))"
| read_error: "loops s c = Some (ep, LReading) \<Longrightarrow> keeper_step s (set_pc c ep (LExit err False) s)"
| read_seq: "loops s c = Some (ep, LRead line) \<Longrightarrow> nextSeq (keeper s) = (k, seq) \<Longrightarrow>
    keeper_step s (set_pc c ep (LNumbered \<lparr>eSeq = seq, eEpoch = ep, eLine = line, eTime = t\<rparr>)
      (s\<lparr>keeper := k\<rparr>))"
| read_push: "loops s c = Some (ep, LNumbered e) \<Longrightarrow> push_line e (keeper s) = (k, evicted) \<Longrightarrow>
    keeper_step s (set_pc c ep (LPushed e evicted) (s\<lparr>keeper := k\<rparr>))"
| read_publish: "loops s c = Some (ep, LPushed e evicted) \<Longrightarrow>
    keeper_step s (set_pc c ep (LPublished e evicted) (s\<lparr>keeper := publishLine e (keeper s)\<rparr>))"
| read_overflow: "loops s c = Some (ep, LPublished e True) \<Longrightarrow> \<not> hasLineSubscribers (keeper s) \<Longrightarrow>
    keeper_step s (set_pc c ep (LExit ring_overflow_err True) s)"
| read_quiet: "loops s c = Some (ep, LPublished e evicted) \<Longrightarrow>
    \<not> (evicted \<and> \<not> hasLineSubscribers (keeper s)) \<Longrightarrow> ping_reply (eLine e) = None \<Longrightarrow>
    keeper_step s (set_pc c ep LReading s)"
| read_pong: "loops s c = Some (ep, LPublished e evicted) \<Longrightarrow>
    \<not> (evicted \<and> \<not> hasLineSubscribers (keeper s)) \<Longrightarrow> ping_reply (eLine e) = Some pong \<Longrightarrow>
    pc = LReading \<or> pc = LExit werr False \<Longrightarrow> keeper_step s (set_pc c ep pc s)"
| loop_deliberate: "loops s c = Some (ep, LExit err ovf) \<Longrightarrow>
    keeper_step s (set_pc c ep (LLeaving (c \<in> cancelled s) err ovf) s)"
| loop_detach: "loops s c = Some (ep, LLeaving deliberate err ovf) \<Longrightarrow>
    readLoop_detach c deliberate err ovf (keeper s) = (k, still) \<Longrightarrow>
    keeper_step s (set_pc c ep (if still then LClear deliberate err else LDone) (s\<lparr>keeper := k\<rparr>))"
| loop_clear: "loops s c = Some (ep, LClear deliberate err) \<Longrightarrow>
    keeper_step s (set_pc c ep (LPublish deliberate err) (s\<lparr>keeper := keeper_clear_blob (keeper s)\<rparr>))"
| loop_quiet: "loops s c = Some (ep, LPublish True err) \<Longrightarrow> keeper_step s (set_pc c ep LDone s)"
| loop_event: "loops s c = Some (ep, LPublish False err) \<Longrightarrow>
    keeper_step s (set_pc c ep LDone
      (emit \<lparr>evKind = EventDisconnected, evEpoch = ep, evErr = Some err\<rparr> s))"
| close_idle: "Close_detach (keeper s) = (k, None) \<Longrightarrow> keeper_step s (s\<lparr>keeper := k\<rparr>)"
| close_detach: "Close_detach (keeper s) = (k, Some c) \<Longrightarrow>
    keeper_step s (s\<lparr>keeper := k, closers := closers s @ [(c, CClear)]\<rparr>)"
| close_clear: "closers s = xs @ (c, CClear) # ys \<Longrightarrow>
    keeper_step s (s\<lparr>keeper := keeper_clear_blob (keeper s), closers := xs @ (c, CCancel) # ys\<rparr>)"
| close_cancel: "closers s = xs @ (c, CCancel) # ys \<Longrightarrow>
    keeper_step s (s\<lparr>cancelled := insert c (cancelled s), closers := xs @ ys\<rparr>)"
| client_op: "k = AckSeq n (keeper s) \<or> k = PushBlob key mode val (keeper s) \<or>
    k = Subscribe ch (keeper s) \<or> k = Unsubscribe ch (keeper s) \<or>
    k = SubscribeLines ch (keeper s) \<or> k = UnsubscribeLines ch (keeper s) \<or>
    k = fst (recv_line ch (keeper s)) \<or> k = (keeper s)\<lparr>kSubs := [], kLineSubs := []\<rparr> \<Longrightarrow>
    keeper_step s (s\<lparr>keeper := k\<rparr>)"

inductive keeper_reach :: "(sys \<Rightarrow> bool) \<Rightarrow> int \<Rightarrow> sys \<Rightarrow> bool" for G cap where
  init: "keeper_reach G cap (init_sys cap)"
| step: "keeper_reach G cap s \<Longrightarrow> keeper_step s s' \<Longrightarrow> G s' \<Longrightarrow> keeper_reach G cap s'"

section \<open>What each section leaves alone\<close>

named_theorems keeper_frame

lemma keeper_frame_ops [simp, keeper_frame]:
  "kConn (AckSeq n k) = kConn k" "kState (AckSeq n k) = kState k" "kEpoch (AckSeq n k) = kEpoch k"
  "kConn (PushBlob key mode v k) = kConn k" "kState (PushBlob key mode v k) = kState k"
  "kEpoch (PushBlob key mode v k) = kEpoch k"
  "kConn (Subscribe ch k) = kConn k" "kState (Subscribe ch k) = kState k" "kEpoch (Subscribe ch k) = kEpoch k"
  "kConn (Unsubscribe ch k) = kConn k" "kState (Unsubscribe ch k) = kState k"
  "kEpoch (Unsubscribe ch k) = kEpoch k"
  "kConn (SubscribeLines ch k) = kConn k" "kState (SubscribeLines ch k) = kState k"
  "kEpoch (SubscribeLines ch k) = kEpoch k"
  "kConn (UnsubscribeLines ch k) = kConn k" "kState (UnsubscribeLines ch k) = kState k"
  "kEpoch (UnsubscribeLines ch k) = kEpoch k"
  "kConn (publish ev k) = kConn k" "kState (publish ev k) = kState k" "kEpoch (publish ev k) = kEpoch k"
  "kConn (publishLine e k) = kConn k" "kState (publishLine e k) = kState k"
  "kEpoch (publishLine e k) = kEpoch k"
  "kConn (keeper_clear_blob k) = kConn k" "kState (keeper_clear_blob k) = kState k"
  "kEpoch (keeper_clear_blob k) = kEpoch k"
  by (simp_all add: AckSeq_def PushBlob_def Subscribe_def Unsubscribe_def SubscribeLines_def
      UnsubscribeLines_def publish_def publishLine_def keeper_clear_blob_def)

lemma keeper_frame_recv [simp]:
  "kConn (fst (recv_line ch k)) = kConn k" "kState (fst (recv_line ch k)) = kState k"
  "kEpoch (fst (recv_line ch k)) = kEpoch k" "kSeqCounter (fst (recv_line ch k)) = kSeqCounter k"
  "kRing (fst (recv_line ch k)) = kRing k"
  by (simp_all add: recv_line_def split: option.splits list.splits)

lemma keeper_frame_log [simp, keeper_frame]:
  "kSeqCounter (AckSeq n k) = kSeqCounter k" "kRing (AckSeq n k) = kRing k"
  "kSeqCounter (PushBlob key mode v k) = kSeqCounter k" "kRing (PushBlob key mode v k) = kRing k"
  "kSeqCounter (Subscribe ch k) = kSeqCounter k" "kRing (Subscribe ch k) = kRing k"
  "kSeqCounter (Unsubscribe ch k) = kSeqCounter k" "kRing (Unsubscribe ch k) = kRing k"
  "kSeqCounter (SubscribeLines ch k) = kSeqCounter k" "kRing (SubscribeLines ch k) = kRing k"
  "kSeqCounter (UnsubscribeLines ch k) = kSeqCounter k" "kRing (UnsubscribeLines ch k) = kRing k"
  "kSeqCounter (publish ev k) = kSeqCounter k" "kRing (publish ev k) = kRing k"
  "kSeqCounter (publishLine e k) = kSeqCounter k" "kRing (publishLine e k) = kRing k"
  "kSeqCounter (keeper_clear_blob k) = kSeqCounter k" "kRing (keeper_clear_blob k) = kRing k"
  by (simp_all add: AckSeq_def PushBlob_def Subscribe_def Unsubscribe_def SubscribeLines_def
      UnsubscribeLines_def publish_def publishLine_def keeper_clear_blob_def)

lemma set_pc_simps [simp]:
  "keeper (set_pc c ep pc s) = keeper s" "loops (set_pc c ep pc s) = (loops s)(c \<mapsto> (ep, pc))"
  "cancelled (set_pc c ep pc s) = cancelled s" "closers (set_pc c ep pc s) = closers s"
  "published (set_pc c ep pc s) = published s" "dials (set_pc c ep pc s) = dials s" "wire (set_pc c ep pc s) = wire s"
  by (simp_all add: set_pc_def)

lemma emit_simps [simp]:
  "keeper (emit ev s) = publish ev (keeper s)" "loops (emit ev s) = loops s"
  "cancelled (emit ev s) = cancelled s" "closers (emit ev s) = closers s"
  "published (emit ev s) = published s @ [ev]" "dials (emit ev s) = dials s" "wire (emit ev s) = wire s"
  by (simp_all add: emit_def)

section \<open>The connection slot\<close>

fun attached :: "loop_pc \<Rightarrow> bool" where
  "attached (LClear _ _) = False"
| "attached (LPublish _ _) = False"
| "attached LDone = False"
| "attached _ = True"

fun reporting :: "loop_pc \<Rightarrow> bool" where
  "reporting (LClear _ _) = True"
| "reporting (LPublish _ _) = True"
| "reporting _ = False"

fun marked_deliberate :: "loop_pc \<Rightarrow> bool" where
  "marked_deliberate (LClear d _) = d"
| "marked_deliberate (LPublish d _) = d"
| "marked_deliberate _ = False"

fun saw_cancel :: "loop_pc \<Rightarrow> bool" where
  "saw_cancel (LLeaving d _ _) = d"
| "saw_cancel _ = False"

text \<open>The connections that a call of \<open>Close\<close> has taken out of the slot.\<close>

definition taken :: "sys \<Rightarrow> nat set" where
  "taken s = cancelled s \<union> fst ` set (closers s)"

definition slot_ok :: "sys \<Rightarrow> bool" where
  "slot_ok s \<longleftrightarrow>
     (kState (keeper s) = Connected \<longleftrightarrow> kConn (keeper s) \<noteq> None) \<and>
     (\<forall>c. kConn (keeper s) = Some c \<longrightarrow>
        (\<exists>pc. loops s c = Some (kEpoch (keeper s), pc) \<and> attached pc) \<and> c \<notin> taken s) \<and>
     (\<forall>c ep pc. loops s c = Some (ep, pc) \<and> attached pc \<and> kConn (keeper s) \<noteq> Some c \<longrightarrow> c \<in> taken s)"

definition taken_ok :: "sys \<Rightarrow> bool" where
  "taken_ok s \<longleftrightarrow>
     (\<forall>c \<in> taken s. \<exists>ep pc. loops s c = Some (ep, pc) \<and> \<not> reporting pc) \<and>
     (\<forall>c ep pc. loops s c = Some (ep, pc) \<longrightarrow> \<not> marked_deliberate pc \<and> (saw_cancel pc \<longrightarrow> c \<in> taken s))"

lemma slot_frame:
  "slot_ok s \<Longrightarrow> kConn (keeper s') = kConn (keeper s) \<Longrightarrow> kState (keeper s') = kState (keeper s) \<Longrightarrow>
   kEpoch (keeper s') = kEpoch (keeper s) \<Longrightarrow> loops s' = loops s \<Longrightarrow> taken s' = taken s \<Longrightarrow> slot_ok s'"
  by (simp add: slot_ok_def)

lemma taken_frame:
  "taken_ok s \<Longrightarrow> loops s' = loops s \<Longrightarrow> taken s' = taken s \<Longrightarrow> taken_ok s'"
  by (simp add: taken_ok_def)

lemma slot_set_pc:
  "slot_ok s \<Longrightarrow> loops s c = Some (ep, pc0) \<Longrightarrow> attached pc = attached pc0 \<Longrightarrow> slot_ok (set_pc c ep pc s)"
  by (auto simp: slot_ok_def taken_def)

lemma taken_set_pc:
  "taken_ok s \<Longrightarrow> \<not> marked_deliberate pc \<Longrightarrow> saw_cancel pc \<longrightarrow> c \<in> taken s \<Longrightarrow> \<not> reporting pc \<or> c \<notin> taken s \<Longrightarrow>
   taken_ok (set_pc c ep pc s)"
  unfolding taken_ok_def taken_def by auto

lemma not_slot: "slot_ok s \<Longrightarrow> loops s c = Some (ep, pc) \<Longrightarrow> \<not> attached pc \<Longrightarrow> kConn (keeper s) \<noteq> Some c"
  by (auto simp: slot_ok_def)

lemma reporting_not_taken: "taken_ok s \<Longrightarrow> loops s c = Some (ep, pc) \<Longrightarrow> reporting pc \<Longrightarrow> c \<notin> taken s"
  by (auto simp: taken_ok_def)

definition same_slot :: "sys \<Rightarrow> sys \<Rightarrow> bool" where
  "same_slot s1 s \<longleftrightarrow> kConn (keeper s1) = kConn (keeper s) \<and> kState (keeper s1) = kState (keeper s) \<and>
     kEpoch (keeper s1) = kEpoch (keeper s) \<and> loops s1 = loops s \<and> taken s1 = taken s"

lemma loop_move:
  assumes ok: "slot_ok s" "taken_ok s" and c: "loops s c = Some (ep, pc0)" and "same_slot s1 s"
    and "attached pc = attached pc0" and "reporting pc \<longrightarrow> reporting pc0"
    and "\<not> marked_deliberate pc" and "saw_cancel pc \<longrightarrow> c \<in> taken s"
  shows "slot_ok (set_pc c ep pc s1) \<and> taken_ok (set_pc c ep pc s1)"
proof -
  have "slot_ok s1" "taken_ok s1"
    using ok assms(4) slot_frame taken_frame by (auto simp: same_slot_def)
  moreover have "c \<notin> taken s1" if "reporting pc"
    using reporting_not_taken [OF ok(2) c] that assms(4,6) by (simp add: same_slot_def)
  ultimately show ?thesis
    using slot_set_pc [of s1 c ep pc0 pc] taken_set_pc [of s1 pc c ep] c assms(4,5,7,8)
    by (auto simp: same_slot_def)
qed

lemma same_slot_simps [simp]:
  "same_slot s s"
  "same_slot (emit ev s) s"
  "same_slot (s\<lparr>keeper := k\<rparr>) s \<longleftrightarrow>
     kConn k = kConn (keeper s) \<and> kState k = kState (keeper s) \<and> kEpoch k = kEpoch (keeper s)"
  "same_slot (s\<lparr>wire := w\<rparr>) s"
  by (auto simp: same_slot_def taken_def)

lemma marked_deliberateD: "taken_ok s \<Longrightarrow> loops s c = Some (ep, pc) \<Longrightarrow> \<not> marked_deliberate pc"
  by (auto simp: taken_ok_def)

lemma saw_cancelD: "taken_ok s \<Longrightarrow> loops s c = Some (ep, pc) \<Longrightarrow> saw_cancel pc \<Longrightarrow> c \<in> taken s"
  by (auto simp: taken_ok_def)

lemma left_slot_taken:
  "slot_ok s \<Longrightarrow> loops s c = Some (ep, pc) \<Longrightarrow> attached pc \<Longrightarrow> kConn (keeper s) \<noteq> Some c \<Longrightarrow> c \<in> taken s"
  by (auto simp: slot_ok_def)

lemma keeper_step_ok:
  assumes "keeper_step s s'" and ok: "slot_ok s" "taken_ok s"
  shows "slot_ok s' \<and> taken_ok s'"
  using assms(1)
proof cases
  case dial_start
  then show ?thesis using ok by (auto intro: slot_frame taken_frame simp: taken_def)
next
  case dial_fail
  then show ?thesis using ok by (auto intro: slot_frame taken_frame simp: taken_def)
next
  case dial_lost
  then show ?thesis using ok by (auto intro: slot_frame taken_frame simp: taken_def)
next
  case (dial_commit c k)
  then have k: "kConn (keeper s) = None" "kConn k = Some c" "kState k = Connected"
    by (auto simp: Dial_commit_def split: if_splits)
  have "c \<notin> taken s" using ok(2) dial_commit(3) by (auto simp: taken_ok_def)
  then show ?thesis using dial_commit ok k by (auto simp: slot_ok_def taken_ok_def taken_def)
next
  case (close_detach k c)
  then have k: "kConn (keeper s) = Some c" "kConn k = None" "kState k = NotConnected"
    by (auto simp: Close_detach_def split: option.splits)
  obtain pc where pc: "loops s c = Some (kEpoch (keeper s), pc)" "attached pc"
    using ok(1) k(1) by (auto simp: slot_ok_def)
  then have "\<not> reporting pc" by (cases pc) auto
  have t: "taken s' = insert c (taken s)" using close_detach(1) by (auto simp: taken_def)
  have "d \<in> taken s" if "loops s d = Some (ep, pcd)" "attached pcd" "d \<noteq> c" for d ep pcd
    using left_slot_taken [OF ok(1) that(1,2)] k(1) that(3) by simp
  then have "slot_ok s'" using close_detach(1) k unfolding slot_ok_def t by auto
  moreover have "taken_ok s'"
    using close_detach(1) ok(2) pc \<open>\<not> reporting pc\<close> unfolding taken_ok_def t by auto
  ultimately show ?thesis by simp
next
  case (loop_detach c ep deliberate err ovf k still)
  show ?thesis
  proof (cases "kConn (keeper s) = Some c")
    case True
    then have c: "c \<notin> taken s" using ok(1) by (auto simp: slot_ok_def)
    then have "still" "kConn k = None" "kState k = NotConnected" "\<not> deliberate"
      using loop_detach(3) True saw_cancelD [OF ok(2) loop_detach(2)] by (auto simp: readLoop_detach_def Let_def)
    then show ?thesis using loop_detach(1) ok c True by (auto simp: slot_ok_def taken_ok_def taken_def)
  next
    case False
    then have "\<not> still" "k = keeper s" using loop_detach(3) by (auto simp: readLoop_detach_def)
    moreover have "c \<in> taken s" using left_slot_taken [OF ok(1) loop_detach(2)] False by simp
    ultimately show ?thesis
      using loop_detach(1) ok False taken_set_pc [of s LDone c ep] by (auto simp: slot_ok_def taken_def)
  qed
next
  case (close_cancel xs c ys)
  then have "taken s' = taken s" by (auto simp: taken_def)
  then show ?thesis using close_cancel ok by (auto intro: slot_frame taken_frame)
next
  case (close_clear xs c ys)
  then have "taken s' = taken s" by (auto simp: taken_def)
  then show ?thesis using close_clear ok by (auto intro: slot_frame taken_frame)
next
  case (read_seq c ep line k seq t)
  then show ?thesis
    using loop_move [OF ok, of c ep _ "s\<lparr>keeper := k\<rparr>"] by (auto simp: nextSeq_def)
next
  case (read_push c ep e k evicted)
  then show ?thesis
    using loop_move [OF ok, of c ep _ "s\<lparr>keeper := k\<rparr>"] by (auto simp: push_line_def split: prod.splits)
next
  case (loop_deliberate c ep err ovf)
  then show ?thesis using loop_move [OF ok, of c ep "LExit err ovf" s] by (simp add: taken_def)
next
  case (loop_clear c ep deliberate err)
  then have "\<not> deliberate" using marked_deliberateD [OF ok(2)] by force
  then show ?thesis
    using loop_clear loop_move [OF ok loop_clear(2), of "s\<lparr>keeper := keeper_clear_blob (keeper s)\<rparr>"] by simp
next
  case (close_idle k)
  then show ?thesis using ok by (auto simp: Close_detach_def split: option.splits)
next
  case (client_op k n key mode val ch)
  then have "same_slot (s\<lparr>keeper := k\<rparr>) s" by auto
  then show ?thesis
    using ok client_op slot_frame [OF ok(1)] taken_frame [OF ok(2)] by (auto simp: same_slot_def)
qed (use loop_move [OF ok] in auto)

lemma keeper_reach_ok: "keeper_reach G cap s \<Longrightarrow> slot_ok s \<and> taken_ok s"
proof (induction rule: keeper_reach.induct)
  case init
  then show ?case by (simp add: slot_ok_def taken_ok_def taken_def init_sys_def New_def)
next
  case (step s s')
  then show ?case using keeper_step_ok by blast
qed

section \<open>The events\<close>

text \<open>
  Connections that ended by themselves: their loop has returned and no \<open>Close\<close> took them. Per epoch they are
  as many as the disconnect events.
\<close>

definition disconnects :: "64 word \<Rightarrow> Event list \<Rightarrow> nat" where
  "disconnects ep evs = length (filter (\<lambda>ev. evKind ev = EventDisconnected \<and> evEpoch ev = ep) evs)"

definition died :: "64 word \<Rightarrow> sys \<Rightarrow> nat set" where
  "died ep s = {c. loops s c = Some (ep, LDone) \<and> c \<notin> taken s}"

definition events_ok :: "sys \<Rightarrow> bool" where
  "events_ok s \<longleftrightarrow> finite (dom (loops s)) \<and> (\<forall>ep. disconnects ep (published s) = card (died ep s))"

lemma disconnects_append [simp]: "disconnects ep (xs @ ys) = disconnects ep xs + disconnects ep ys"
  by (simp add: disconnects_def)

lemma events_frame:
  "events_ok s \<Longrightarrow> loops s' = loops s \<Longrightarrow> taken s' = taken s \<Longrightarrow> published s' = published s \<Longrightarrow> events_ok s'"
  by (simp add: events_ok_def died_def)

lemma events_set_pc:
  assumes "events_ok s" and "loops s c = None \<or> (\<exists>pc0. loops s c = Some (ep, pc0) \<and> pc0 \<noteq> LDone)"
    and "loops s1 = loops s" and "taken s1 = taken s" and "pc \<noteq> LDone \<or> c \<in> taken s"
    and "\<And>ep. disconnects ep (published s1) = disconnects ep (published s)"
  shows "events_ok (set_pc c ep pc s1)"
proof -
  have t: "taken (set_pc c ep pc s1) = taken s" using assms(4) by (simp add: taken_def)
  have "died ep' (set_pc c ep pc s1) = died ep' s" for ep'
    unfolding died_def t using assms(2,3,5) by auto
  then show ?thesis using assms(1,3,6) by (simp add: events_ok_def)
qed

lemma keeper_step_events:
  assumes "keeper_step s s'" and ok: "slot_ok s" "taken_ok s" and ev: "events_ok s"
  shows "events_ok s'"
  using assms(1)
proof cases
  case (dial_commit c k)
  then show ?thesis
    using events_set_pc [OF ev, of c "kEpoch k" "s\<lparr>dials := dials s - 1, keeper := k\<rparr>" LSpawn] by (simp add: taken_def)
next
  case (dial_spawn c ep)
  then show ?thesis
    using events_set_pc [OF ev, of c ep "emit \<lparr>evKind = EventConnected, evEpoch = ep, evErr = None\<rparr> s" LReading]
    by (simp add: taken_def disconnects_def)
next
  case (loop_detach c ep deliberate err ovf k still)
  have "c \<in> taken s" if "\<not> still"
    using loop_detach(3) that left_slot_taken [OF ok(1) loop_detach(2)]
    by (auto simp: readLoop_detach_def Let_def split: if_splits)
  then show ?thesis
    using loop_detach(1,2)
      events_set_pc [OF ev, of c ep "s\<lparr>keeper := k\<rparr>" "if still then LClear deliberate err else LDone"]
    by (simp add: taken_def)
next
  case (loop_quiet c ep err)
  then show ?thesis using marked_deliberateD [OF ok(2) loop_quiet(2)] by simp
next
  case (loop_event c ep err)
  let ?ev = "\<lparr>evKind = EventDisconnected, evEpoch = ep, evErr = Some err\<rparr>"
  have t: "taken s' = taken s" using loop_event(1) by (simp add: taken_def)
  have l: "loops s' = (loops s)(c \<mapsto> (ep, LDone))" using loop_event(1) by simp
  have "c \<notin> taken s" using reporting_not_taken [OF ok(2) loop_event(2)] by simp
  then have "died e s' = (if e = ep then insert c (died e s) else died e s)" for e
    unfolding died_def t l using loop_event(2) by auto
  moreover have "finite (died e s)" for e
    using ev by (auto simp: events_ok_def died_def elim!: finite_subset [rotated])
  moreover have "c \<notin> died ep s" using loop_event(2) by (simp add: died_def)
  ultimately have "card (died e s') = card (died e s) + (if e = ep then 1 else 0)" for e by simp
  moreover have "published s' = published s @ [?ev]" using loop_event(1) by simp
  moreover have "finite (dom (loops s'))" unfolding l using ev by (simp add: events_ok_def)
  ultimately show ?thesis using ev by (simp add: events_ok_def disconnects_def)
next
  case (close_detach k c)
  then have "kConn (keeper s) = Some c" by (auto simp: Close_detach_def split: option.splits)
  then obtain pc where pc: "loops s c = Some (kEpoch (keeper s), pc)" "attached pc"
    using ok(1) by (auto simp: slot_ok_def)
  have "taken s' = insert c (taken s)" "loops s' = loops s" "published s' = published s"
    using close_detach(1) by (auto simp: taken_def)
  moreover have "died ep s' = died ep s" for ep
    unfolding died_def calculation(1,2) using pc by auto
  ultimately show ?thesis using ev by (simp add: events_ok_def)
next
  case (close_cancel xs c ys)
  then show ?thesis by (auto intro: events_frame [OF ev] simp: taken_def)
next
  case (close_clear xs c ys)
  then show ?thesis by (auto intro: events_frame [OF ev] simp: taken_def)
next
  case (close_idle k)
  then show ?thesis by (auto intro: events_frame [OF ev] simp: taken_def)
next
  case (client_op k n key mode val ch)
  then show ?thesis by (auto intro: events_frame [OF ev] simp: taken_def)
next
  case dial_start
  then show ?thesis by (auto intro: events_frame [OF ev] simp: taken_def)
next
  case dial_fail
  then show ?thesis by (auto intro: events_frame [OF ev] simp: taken_def)
next
  case dial_lost
  then show ?thesis by (auto intro: events_frame [OF ev] simp: taken_def)
qed (auto intro!: events_set_pc [OF ev] simp: taken_def)

lemma keeper_reach_events: "keeper_reach G cap s \<Longrightarrow> events_ok s"
proof (induction rule: keeper_reach.induct)
  case init
  then show ?case by (simp add: events_ok_def disconnects_def died_def init_sys_def)
next
  case (step s s')
  then show ?case using keeper_step_events keeper_reach_ok by blast
qed

section \<open>The numbering of the lines\<close>

text \<open>
  Two read loops overlap only while a loop whose connection was closed is still on its way out
  when a new dial has gone through. Without such an overlap the ring holds the lines in the order
  of their numbers.
\<close>

definition serial :: "sys \<Rightarrow> bool" where
  "serial s \<longleftrightarrow> (\<forall>c d x y. loops s c = Some x \<and> loops s d = Some y \<and> snd x \<noteq> LDone \<and> snd y \<noteq> LDone \<longrightarrow> c = d) \<and>
     kSeqCounter (keeper s) \<noteq> - 1"

definition in_flight :: "sys \<Rightarrow> (64 word \<times> Entry) set" where
  "in_flight s = {(ep, e). \<exists>c. loops s c = Some (ep, LNumbered e)}"

text \<open>The lines that a loop has taken from its socket and not yet pushed.\<close>

fun unstored :: "64 word \<Rightarrow> loop_pc \<Rightarrow> (64 word \<times> string) list" where
  "unstored ep (LRead line) = [(ep, line)]"
| "unstored ep (LNumbered e) = [(eEpoch e, eLine e)]"
| "unstored ep _ = []"

definition unstored_lines :: "sys \<Rightarrow> (64 word \<times> string) set" where
  "unstored_lines s = {x. \<exists>c ep pc. loops s c = Some (ep, pc) \<and> x \<in> set (unstored ep pc)}"

definition lines_of :: "Entry list \<Rightarrow> (64 word \<times> string) list" where
  "lines_of es = map (\<lambda>e. (eEpoch e, eLine e)) es"

definition log_ok :: "int \<Rightarrow> sys \<Rightarrow> bool" where
  "log_ok cap s \<longleftrightarrow> (\<exists>hist rest. kRing (keeper s) = fold (\<lambda>e r. fst (ring_push e r)) hist (newRing cap) \<and>
     numbered hist \<and> wire s = lines_of hist @ rest \<and> set rest = unstored_lines s \<and> length rest \<le> 1 \<and>
     (if in_flight s = {} then unat (kSeqCounter (keeper s)) = length hist
      else unat (kSeqCounter (keeper s)) = length hist + 1 \<and>
           (\<forall>(ep, e) \<in> in_flight s. eSeq e = kSeqCounter (keeper s))))"

lemma log_frame:
  "log_ok cap s \<Longrightarrow> kRing (keeper s') = kRing (keeper s) \<Longrightarrow>
   kSeqCounter (keeper s') = kSeqCounter (keeper s) \<Longrightarrow> wire s' = wire s \<Longrightarrow>
   in_flight s' = in_flight s \<Longrightarrow> unstored_lines s' = unstored_lines s \<Longrightarrow> log_ok cap s'"
  by (simp only: log_ok_def)

lemma log_frame_loops:
  "log_ok cap s \<Longrightarrow> kRing (keeper s') = kRing (keeper s) \<Longrightarrow>
   kSeqCounter (keeper s') = kSeqCounter (keeper s) \<Longrightarrow> wire s' = wire s \<Longrightarrow> loops s' = loops s \<Longrightarrow> log_ok cap s'"
  by (erule log_frame) (simp_all add: in_flight_def unstored_lines_def)

lemma unstored_set_pc:
  assumes "loops s c = None \<or> (\<exists>pc0. loops s c = Some (ep, pc0) \<and> unstored ep pc0 = [])" and "unstored ep pc = []"
    and "loops s1 = loops s"
  shows "in_flight (set_pc c ep pc s1) = in_flight s \<and> unstored_lines (set_pc c ep pc s1) = unstored_lines s"
proof -
  have "loops (set_pc c ep pc s1) d = Some (ep', LNumbered e) \<longleftrightarrow> loops s d = Some (ep', LNumbered e)" for d ep' e
    using assms by (cases "d = c") auto
  moreover have "(\<exists>pc'. loops (set_pc c ep pc s1) d = Some (ep', pc') \<and> x \<in> set (unstored ep' pc')) \<longleftrightarrow>
    (\<exists>pc'. loops s d = Some (ep', pc') \<and> x \<in> set (unstored ep' pc'))" for d ep' x
    using assms by (cases "d = c") auto
  ultimately show ?thesis unfolding in_flight_def unstored_lines_def by auto
qed

lemma log_set_pc:
  assumes "log_ok cap s" and "loops s c = None \<or> (\<exists>pc0. loops s c = Some (ep, pc0) \<and> unstored ep pc0 = [])"
    and "unstored ep pc = []" and "loops s1 = loops s" and "kRing (keeper s1) = kRing (keeper s)"
    and "kSeqCounter (keeper s1) = kSeqCounter (keeper s)" and "wire s1 = wire s"
  shows "log_ok cap (set_pc c ep pc s1)"
  using unstored_set_pc [OF assms(2-4)] assms(5-7) by (auto intro: log_frame [OF assms(1)])

lemma numbered_snoc: "numbered es \<Longrightarrow> unat (eSeq e) = length es + 1 \<Longrightarrow> numbered (es @ [e])"
  by (auto simp: numbered_def list_all_iff nth_append less_Suc_eq)

lemma serial_alone:
  assumes "serial s" and "loops s c = Some (ep, pc)" and "pc \<noteq> LDone" and "loops s d = Some (ep', pc')"
    and "pc' \<noteq> LDone"
  shows "d = c \<and> ep' = ep \<and> pc' = pc"
proof -
  have "d = c" using assms unfolding serial_def by (metis snd_conv)
  then show ?thesis using assms by simp
qed

lemma in_flight_alone:
  assumes "serial s" and "loops s c = Some (ep, pc)" and "pc \<noteq> LDone"
  shows "in_flight s = {(ep', e). ep' = ep \<and> pc = LNumbered e}"
proof (intro subset_antisym subsetI)
  fix x assume "x \<in> in_flight s"
  then obtain d ep' e where "x = (ep', e)" "loops s d = Some (ep', LNumbered e)"
    by (auto simp: in_flight_def)
  then show "x \<in> {(ep', e). ep' = ep \<and> pc = LNumbered e}"
    using serial_alone [OF assms, of d ep' "LNumbered e"] by auto
next
  fix x assume "x \<in> {(ep', e). ep' = ep \<and> pc = LNumbered e}"
  then show "x \<in> in_flight s" using assms(2) by (auto simp: in_flight_def)
qed

lemma in_flight_moved:
  assumes "serial s" and "loops s c = Some (ep, pc0)" and "pc0 \<noteq> LDone" and "loops s1 = loops s"
  shows "in_flight (set_pc c ep pc s1) = {(ep', e). ep' = ep \<and> pc = LNumbered e}"
proof (intro subset_antisym subsetI)
  fix x assume "x \<in> in_flight (set_pc c ep pc s1)"
  then obtain d ep' e where x: "x = (ep', e)" "((loops s)(c \<mapsto> (ep, pc))) d = Some (ep', LNumbered e)"
    using assms(4) by (auto simp: in_flight_def)
  then have "d = c"
    using serial_alone [OF assms(1-3), of d ep' "LNumbered e"] by (cases "d = c") auto
  then show "x \<in> {(ep', e). ep' = ep \<and> pc = LNumbered e}" using x by simp
next
  fix x assume "x \<in> {(ep', e). ep' = ep \<and> pc = LNumbered e}"
  then show "x \<in> in_flight (set_pc c ep pc s1)" by (auto simp: in_flight_def)
qed

lemma unstored_alone:
  assumes "serial s" and "loops s c = Some (ep, pc)" and "pc \<noteq> LDone"
  shows "unstored_lines s = set (unstored ep pc)"
proof -
  have "x \<in> set (unstored ep pc)" if "loops s d = Some (ep', pc')" "x \<in> set (unstored ep' pc')" for d ep' pc' x
    using serial_alone [OF assms that(1)] that(2) by (cases "pc' = LDone") auto
  then show ?thesis using assms(2) unfolding unstored_lines_def by blast
qed

lemma unstored_moved:
  assumes "serial s" and "loops s c = Some (ep, pc0)" and "pc0 \<noteq> LDone" and "loops s1 = loops s"
  shows "unstored_lines (set_pc c ep pc s1) = set (unstored ep pc)"
proof -
  have "x \<in> set (unstored ep pc)"
    if "loops (set_pc c ep pc s1) d = Some (ep', pc')" "x \<in> set (unstored ep' pc')" for d ep' pc' x
  proof (cases "d = c")
    case False
    then have "loops s d = Some (ep', pc')" "pc' \<noteq> LDone" using that assms(4) by auto
    then show ?thesis using serial_alone [OF assms(1-3)] False by blast
  qed (use that in auto)
  moreover have "loops (set_pc c ep pc s1) c = Some (ep, pc)" by simp
  ultimately show ?thesis unfolding unstored_lines_def by blast
qed

lemma rest_single: "set rest = set xs \<Longrightarrow> length rest \<le> 1 \<Longrightarrow> length xs \<le> 1 \<Longrightarrow> rest = xs"
  by (cases rest; cases xs) auto

lemma keeper_step_log:
  assumes "keeper_step s s'" and log: "log_ok cap s" and ser: "serial s"
  shows "log_ok cap s'"
  using assms(1)
proof cases
  case (read_line c ep line)
  have "in_flight s' = in_flight s" "unstored_lines s = {}" "unstored_lines s' = {(ep, line)}"
    using in_flight_alone [OF ser read_line(2)] in_flight_moved [OF ser read_line(2)] unstored_alone [OF ser read_line(2)]
      unstored_moved [OF ser read_line(2)] read_line(1) by auto
  then obtain hist where "kRing (keeper s) = fold (\<lambda>e r. fst (ring_push e r)) hist (newRing cap)" "numbered hist"
    "wire s = lines_of hist" "unat (kSeqCounter (keeper s)) = length hist" "in_flight s' = {}"
    "unstored_lines s' = set [(ep, line)]"
    using log in_flight_alone [OF ser read_line(2)] by (auto simp: log_ok_def)
  moreover have "keeper s' = keeper s" "wire s' = wire s @ [(ep, line)]" using read_line(1) by simp_all
  ultimately show ?thesis unfolding log_ok_def by (intro exI [of _ hist] exI [of _ "[(ep, line)]"]) simp
next
  case (read_seq c ep line k seq t)
  let ?e = "\<lparr>eSeq = seq, eEpoch = ep, eLine = line, eTime = t\<rparr>"
  have none: "in_flight s = {}"
    using in_flight_alone [OF ser read_seq(2)] by simp
  have now: "in_flight s' = {(ep, ?e)}"
    using read_seq(1) in_flight_moved [OF ser read_seq(2)] by auto
  have same: "unstored_lines s' = unstored_lines s"
    using read_seq(1) unstored_alone [OF ser read_seq(2)] unstored_moved [OF ser read_seq(2)] by simp
  have k: "seq = kSeqCounter (keeper s) + 1" "kSeqCounter k = seq" "kRing k = kRing (keeper s)"
    using read_seq(3) by (auto simp: nextSeq_def)
  then have "unat seq = unat (kSeqCounter (keeper s)) + 1" using ser by (simp add: serial_def unat_plus_one)
  then show ?thesis using log read_seq(1) none now same k by (simp add: log_ok_def)
next
  case (read_push c ep e k evicted)
  have fl: "in_flight s = {(ep, e)}"
    using in_flight_alone [OF ser read_push(2)] by auto
  have now: "in_flight s' = {}" "unstored_lines s' = {}"
    using read_push(1) in_flight_moved [OF ser read_push(2)] unstored_moved [OF ser read_push(2)] by auto
  have un: "unstored_lines s = {(eEpoch e, eLine e)}" using unstored_alone [OF ser read_push(2)] by simp
  obtain hist rest where hist: "kRing (keeper s) = fold (\<lambda>e r. fst (ring_push e r)) hist (newRing cap)"
    "numbered hist" "unat (kSeqCounter (keeper s)) = length hist + 1" "eSeq e = kSeqCounter (keeper s)"
    "wire s = lines_of hist @ rest" "set rest = {(eEpoch e, eLine e)}" "length rest \<le> 1"
    using log fl un by (auto simp: log_ok_def)
  have "rest = [(eEpoch e, eLine e)]" using rest_single [of rest "[(eEpoch e, eLine e)]"] hist(6,7) by simp
  then have "wire s' = lines_of (hist @ [e]) @ []" using hist(5) read_push(1) by (simp add: lines_of_def)
  moreover have "numbered (hist @ [e])" using hist by (simp add: numbered_snoc)
  moreover have "kRing k = fold (\<lambda>e r. fst (ring_push e r)) (hist @ [e]) (newRing cap)"
    and "kSeqCounter k = kSeqCounter (keeper s)"
    using read_push(3) hist(1) by (auto simp: push_line_def split: prod.splits)
  moreover have "keeper s' = k" using read_push(1) by simp
  moreover have "unat (kSeqCounter (keeper s)) = length (hist @ [e])" using hist(3) by simp
  ultimately show ?thesis
    using now unfolding log_ok_def by (intro exI [of _ "hist @ [e]"] exI [of _ "[]"]) auto
next
  case (dial_commit c k)
  then show ?thesis using log_set_pc [OF log, of c] by (auto simp: Dial_commit_def split: if_splits)
next
  case (loop_detach c ep deliberate err ovf k still)
  then have "kRing k = kRing (keeper s)" "kSeqCounter k = kSeqCounter (keeper s)"
    by (auto simp: readLoop_detach_def Let_def split: if_splits)
  then show ?thesis using loop_detach log_set_pc [OF log, of c ep] by simp
next
  case (client_op k n key mode val ch)
  then have "kRing k = kRing (keeper s)" "kSeqCounter k = kSeqCounter (keeper s)" by auto
  then show ?thesis using client_op(1) by (auto intro: log_frame_loops [OF log])
next
  case (close_detach k c)
  then show ?thesis
    by (auto intro!: log_frame_loops [OF log] simp: Close_detach_def split: option.splits)
next
  case (close_idle k)
  then show ?thesis using log by (auto simp: Close_detach_def split: option.splits)
qed (auto intro: log_frame_loops [OF log] log_set_pc [OF log])

lemma keeper_reach_log: "keeper_reach serial cap s \<Longrightarrow> log_ok cap s \<and> serial s"
proof (induction rule: keeper_reach.induct)
  case init
  have "log_ok cap (init_sys cap)"
    by (auto simp: log_ok_def in_flight_def unstored_lines_def lines_of_def init_sys_def New_def numbered_def intro!: exI [of _ "[]"])
  then show ?case by (simp add: serial_def init_sys_def New_def)
next
  case (step s s')
  then show ?case using keeper_step_log by blast
qed

section \<open>A line subscription\<close>

text \<open>The two operations on one subscription: the read loop publishes, the subscriber receives.\<close>

datatype sub_op = Pub Entry | Recv

fun sub_step :: "nat \<Rightarrow> Keeper \<Rightarrow> sub_op \<Rightarrow> Keeper \<times> Entry list" where
  "sub_step ch k (Pub e) = (publishLine e k, [])"
| "sub_step ch k Recv = recv_line ch k"

fun published_entries :: "sub_op list \<Rightarrow> Entry list" where
  "published_entries [] = []"
| "published_entries (Pub e # ops) = e # published_entries ops"
| "published_entries (Recv # ops) = published_entries ops"

lemma published_entries_Cons: "published_entries (op # ops) = published_entries [op] @ published_entries ops"
  by (cases op) auto

lemma map_of_publishLine: "map_of (kLineSubs (publishLine e k)) ch = map_option (offer_line e) (map_of (kLineSubs k) ch)"
  by (simp add: publishLine_def map_of_map)

definition has_sub :: "nat \<Rightarrow> Keeper \<Rightarrow> bool" where
  "has_sub ch k \<longleftrightarrow> map_of (kLineSubs k) ch \<noteq> None"

lemma has_sub_step: "has_sub ch k \<Longrightarrow> sub_step ch k op = (k', out) \<Longrightarrow> has_sub ch k'"
  by (cases op) (auto simp: has_sub_def map_of_publishLine recv_line_def split: option.splits list.splits)

interpretation sub: machine "sub_step ch" "has_sub ch" for ch
  by unfold_locales (rule has_sub_step)

text \<open>Once the overflow channel is closed it stays closed.\<close>

lemma overflow_step:
  assumes "map_of (kLineSubs k) ch = Some s" and "lsOverflow s" and "sub_step ch k op = (k', out)"
  shows "\<exists>s'. map_of (kLineSubs k') ch = Some s' \<and> lsOverflow s'"
  using assms
  by (cases op) (auto simp: map_of_publishLine recv_line_def offer_line_def split: list.splits)

lemma overflow_run:
  "map_of (kLineSubs k) ch = Some s \<Longrightarrow> lsOverflow s \<Longrightarrow> run (sub_step ch) k ops = (k', out) \<Longrightarrow>
   \<exists>s'. map_of (kLineSubs k') ch = Some s' \<and> lsOverflow s'"
proof (induction ops arbitrary: k s out)
  case Nil
  then show ?case by auto
next
  case (Cons op ops)
  obtain k1 o1 where 1: "sub_step ch k op = (k1, o1)" by fastforce
  obtain s1 where "map_of (kLineSubs k1) ch = Some s1" "lsOverflow s1"
    using overflow_step [OF Cons.prems(1,2) 1] by blast
  then show ?case using Cons.IH Cons.prems(3) 1 by (auto split: prod.splits)
qed

lemma sub_run_no_loss:
  assumes "map_of (kLineSubs k) ch = Some s" and "run (sub_step ch) k ops = (k', out)"
    and "map_of (kLineSubs k') ch = Some s'" and "\<not> lsOverflow s'"
  shows "lsQueue s @ published_entries ops = out @ lsQueue s'"
  using assms
proof (induction ops arbitrary: k s out)
  case Nil
  then show ?case by simp
next
  case (Cons op ops)
  obtain k1 o1 where 1: "sub_step ch k op = (k1, o1)" by fastforce
  obtain out1 where 2: "run (sub_step ch) k1 ops = (k', out1)" "out = o1 @ out1"
    using Cons.prems(2) 1 by (auto split: prod.splits)
  obtain s1 where s1: "map_of (kLineSubs k1) ch = Some s1"
    using has_sub_step [OF _ 1] Cons.prems(1) by (auto simp: has_sub_def)
  have "\<not> lsOverflow s1" using overflow_run [OF s1 _ 2(1)] Cons.prems(3,4) by auto
  then have "o1 @ lsQueue s1 = lsQueue s @ published_entries [op]"
    using 1 s1 Cons.prems(1)
    by (cases op) (auto simp: map_of_publishLine recv_line_def offer_line_def split: list.splits if_splits)
  then show ?case
    using Cons.IH [OF s1 2(1) Cons.prems(3,4)] 2(2) published_entries_Cons [of op ops]
    by (metis append.assoc)
qed

section \<open>Properties\<close>

text \<open>
  C2. The connection slot under every interleaving of dials, closes, read loops and client calls:
  the keeper reports Connected exactly when the slot holds a connection; that connection then
  belongs to the current epoch, no Close has taken it, and its read loop is still to run its
  cleanup, so a dead socket cannot stay in the slot unnoticed. A loop on its way to the publication of
  a disconnect event has a connection that no Close has taken and has not seen it cancelled. And the
  events published so far account for the connections: the disconnect events of an epoch are as many as
  the connections of that epoch whose loop has returned and that no Close has taken. So a deliberate
  Close publishes nothing, at any point of its way, and a socket that dies by itself is reported once.
\<close>

theorem keeper_slot_invariant:
  assumes "keeper_reach G cap s"
  shows "(kState (keeper s) = Connected \<longleftrightarrow> kConn (keeper s) \<noteq> None) \<and>
    (\<forall>c. kConn (keeper s) = Some c \<longrightarrow>
       (\<exists>pc. loops s c = Some (kEpoch (keeper s), pc) \<and> attached pc) \<and> c \<notin> taken s) \<and>
    (\<forall>c ep pc. loops s c = Some (ep, pc) \<and> reporting pc \<longrightarrow> c \<notin> taken s \<and> \<not> marked_deliberate pc) \<and>
    (\<forall>ep. finite {c. loops s c = Some (ep, LDone) \<and> c \<notin> taken s} \<and>
       length (filter (\<lambda>ev. evKind ev = EventDisconnected \<and> evEpoch ev = ep) (published s)) =
       card {c. loops s c = Some (ep, LDone) \<and> c \<notin> taken s})"
proof -
  have ok: "slot_ok s" "taken_ok s" "events_ok s" using keeper_reach_ok keeper_reach_events assms by auto
  have "c \<notin> taken s \<and> \<not> marked_deliberate pc" if "loops s c = Some (ep, pc)" "reporting pc" for c ep pc
    using that ok(2) reporting_not_taken marked_deliberateD by blast
  moreover have "finite (died ep s)" for ep
    using ok(3) by (auto simp: events_ok_def died_def elim!: finite_subset [rotated])
  ultimately show ?thesis using ok(1,3) by (auto simp: slot_ok_def events_ok_def disconnects_def died_def)
qed

lemma reach_any: "keeper_reach (\<lambda>_. True) cap s \<Longrightarrow> keeper_step s s' \<Longrightarrow> keeper_reach (\<lambda>_. True) cap s'"
  by (rule keeper_reach.step) auto

text \<open>The dial of an idle keeper, as three steps of the relation.\<close>

definition dialed :: "nat \<Rightarrow> sys \<Rightarrow> sys" where
  "dialed c s = set_pc c (kEpoch (keeper s) + 1) LSpawn
     (s\<lparr>keeper := (keeper s)\<lparr>kEpoch := kEpoch (keeper s) + 1, kConn := Some c, kState := Connected,
                              kLastErr := None\<rparr>\<rparr>)"

lemma reach_dialed:
  assumes "keeper_reach (\<lambda>_. True) cap s" and "kConn (keeper s) = None" and "loops s c = None"
  shows "keeper_reach (\<lambda>_. True) cap (dialed c s)"
proof -
  let ?s1 = "s\<lparr>dials := dials s + 1\<rparr>"
  have "keeper_step s ?s1" using keeper_step.dial_start [of s] assms(2) by (simp add: Dial_check_def)
  moreover have "keeper_step ?s1 (dialed c s)"
    using keeper_step.dial_commit [of ?s1 c] assms(2,3) by (simp add: Dial_commit_def dialed_def set_pc_def)
  ultimately show ?thesis using assms(1) reach_any by blast
qed

text \<open>A connection that dies by itself, and one that is closed, from the dial's locked section to the end of the loop.\<close>

lemma reach_dies:
  assumes "keeper_reach (\<lambda>_. True) cap s" and "loops s c = Some (ep, LSpawn)" and "kConn (keeper s) = Some c"
    and "c \<notin> taken s"
  shows "\<exists>s'. keeper_reach (\<lambda>_. True) cap s' \<and> loops s' = (loops s)(c \<mapsto> (ep, LDone)) \<and> kConn (keeper s') = None \<and>
    kEpoch (keeper s') = kEpoch (keeper s) \<and> taken s' = taken s"
proof -
  define s1 where "s1 = set_pc c ep LReading (emit \<lparr>evKind = EventConnected, evEpoch = ep, evErr = None\<rparr> s)"
  define s2 where "s2 = set_pc c ep (LExit ''EOF'' False) s1"
  define s3 where "s3 = set_pc c ep (LLeaving False ''EOF'' False) s2"
  define s4 where "s4 = set_pc c ep (LClear False ''EOF'') (s3\<lparr>keeper := fst (readLoop_detach c False ''EOF'' False (keeper s3))\<rparr>)"
  define s5 where "s5 = set_pc c ep (LPublish False ''EOF'') (s4\<lparr>keeper := keeper_clear_blob (keeper s4)\<rparr>)"
  define s6 where "s6 = set_pc c ep LDone (emit \<lparr>evKind = EventDisconnected, evEpoch = ep, evErr = Some ''EOF''\<rparr> s5)"
  note defs = s1_def s2_def s3_def s4_def s5_def s6_def
  have "c \<notin> cancelled s2" using assms(4) by (simp add: s2_def s1_def taken_def)
  moreover have "readLoop_detach c False ''EOF'' False (keeper s3) =
    (fst (readLoop_detach c False ''EOF'' False (keeper s3)), True)"
    using assms(3) by (simp add: s3_def s2_def s1_def readLoop_detach_def Let_def)
  moreover have "keeper_step s s1" unfolding s1_def by (rule dial_spawn [OF assms(2)])
  moreover have "keeper_step s1 s2" unfolding s2_def by (rule read_error) (simp add: s1_def)
  moreover have "keeper_step s2 s3"
    using loop_deliberate [of s2 c ep "''EOF''" False] calculation(1) by (simp add: s2_def s3_def)
  moreover have "keeper_step s3 s4"
    using loop_detach [of s3 c ep False "''EOF''" False, OF _ calculation(2)] by (simp add: s3_def s4_def)
  moreover have "keeper_step s4 s5" unfolding s5_def by (rule loop_clear) (simp add: s4_def)
  moreover have "keeper_step s5 s6" unfolding s6_def by (rule loop_event) (simp add: s5_def)
  ultimately have "keeper_reach (\<lambda>_. True) cap s6" using assms(1) reach_any by meson
  moreover have "loops s6 = (loops s)(c \<mapsto> (ep, LDone))" by (simp add: defs)
  moreover have "kConn (keeper s6) = None" "kEpoch (keeper s6) = kEpoch (keeper s)"
    using assms(3) by (simp_all add: defs readLoop_detach_def Let_def)
  moreover have "taken s6 = taken s" by (simp add: defs taken_def)
  ultimately show ?thesis by blast
qed

lemma reach_closed:
  assumes "keeper_reach (\<lambda>_. True) cap s" and "loops s c = Some (ep, LSpawn)" and "kConn (keeper s) = Some c"
    and "closers s = []"
  shows "\<exists>s'. keeper_reach (\<lambda>_. True) cap s' \<and> loops s' = (loops s)(c \<mapsto> (ep, LDone)) \<and> kConn (keeper s') = None \<and>
    taken s' = insert c (taken s)"
proof -
  define s1 where "s1 = set_pc c ep LReading (emit \<lparr>evKind = EventConnected, evEpoch = ep, evErr = None\<rparr> s)"
  define s2 where "s2 = s1\<lparr>keeper := fst (Close_detach (keeper s1)), closers := [(c, CClear)]\<rparr>"
  define s3 where "s3 = s2\<lparr>keeper := keeper_clear_blob (keeper s2), closers := [(c, CCancel)]\<rparr>"
  define s4 where "s4 = s3\<lparr>cancelled := insert c (cancelled s3), closers := []\<rparr>"
  define s5 where "s5 = set_pc c ep (LExit ''closed'' False) s4"
  define s6 where "s6 = set_pc c ep (LLeaving True ''closed'' False) s5"
  define s7 where "s7 = set_pc c ep LDone s6"
  note defs = s1_def s2_def s3_def s4_def s5_def s6_def s7_def
  have none: "kConn (keeper s6) = None" using assms(3) by (simp add: defs Close_detach_def)
  have "keeper_step s s1" unfolding s1_def by (rule dial_spawn [OF assms(2)])
  moreover have "keeper_step s1 s2"
    using close_detach [of s1 "fst (Close_detach (keeper s1))" c] assms(3,4)
    by (simp add: s1_def s2_def Close_detach_def)
  moreover have "keeper_step s2 s3" using close_clear [of s2 "[]" c "[]"] by (simp add: s2_def s3_def)
  moreover have "keeper_step s3 s4" using close_cancel [of s3 "[]" c "[]"] by (simp add: s3_def s4_def)
  moreover have "keeper_step s4 s5" unfolding s5_def by (rule read_error) (simp add: s4_def s3_def s2_def s1_def)
  moreover have "keeper_step s5 s6"
    using loop_deliberate [of s5 c ep "''closed''" False] by (simp add: s6_def s5_def s4_def)
  moreover have "keeper_step s6 s7"
    using loop_detach [of s6 c ep True "''closed''" False "keeper s6" False] none
    by (simp add: s7_def readLoop_detach_def) (simp add: s6_def)
  ultimately have "keeper_reach (\<lambda>_. True) cap s7" using assms(1) reach_any by meson
  moreover have "loops s7 = (loops s)(c \<mapsto> (ep, LDone))" by (simp add: defs)
  moreover have "kConn (keeper s7) = None" using none by (simp add: s7_def)
  moreover have "taken s7 = insert c (taken s)" using assms(4) by (simp add: defs taken_def)
  ultimately show ?thesis by blast
qed

theorem keeper_slot_invariant_witness:
  "\<exists>s. keeper_reach (\<lambda>_. True) 8 s \<and> kState (keeper s) = NotConnected \<and> loops s = [7 \<mapsto> (1, LDone), 8 \<mapsto> (2, LDone)] \<and>
     taken s = {8} \<and>
     length (filter (\<lambda>ev. evKind ev = EventDisconnected \<and> evEpoch ev = 1) (published s)) = 1 \<and>
     length (filter (\<lambda>ev. evKind ev = EventDisconnected \<and> evEpoch ev = 2) (published s)) = 0"
proof -
  let ?s0 = "dialed 7 (init_sys 8)"
  have "keeper_reach (\<lambda>_. True) 8 ?s0"
    by (rule reach_dialed [OF keeper_reach.init]) (simp_all add: init_sys_def New_def)
  then obtain s1 where 1: "keeper_reach (\<lambda>_. True) 8 s1" "loops s1 = [7 \<mapsto> (1, LDone)]" "kConn (keeper s1) = None"
    "kEpoch (keeper s1) = 1" "taken s1 = {}"
    using reach_dies [of 8 ?s0 7 1] by (auto simp: dialed_def init_sys_def New_def taken_def)
  have none: "closers s1 = []" using 1(5) by (simp add: taken_def)
  have "keeper_reach (\<lambda>_. True) 8 (dialed 8 s1)" by (rule reach_dialed [OF 1(1)]) (use 1 in simp_all)
  then obtain s where s: "keeper_reach (\<lambda>_. True) 8 s" "loops s = [7 \<mapsto> (1, LDone), 8 \<mapsto> (2, LDone)]"
    "kConn (keeper s) = None" "taken s = {8}"
    using reach_closed [of 8 "dialed 8 s1" 8 2] 1 none by (auto simp: dialed_def taken_def)
  have sets: "{c. loops s c = Some (1, LDone) \<and> c \<notin> taken s} = {7}" "{c. loops s c = Some (2, LDone) \<and> c \<notin> taken s} = {}"
    using s(2,4) by (auto split: if_splits)
  have count: "length (filter (\<lambda>ev. evKind ev = EventDisconnected \<and> evEpoch ev = ep) (published s)) =
      card {c. loops s c = Some (ep, LDone) \<and> c \<notin> taken s}" for ep
    using keeper_slot_invariant [OF s(1)] by blast
  have "kState (keeper s) \<noteq> Connected" using keeper_slot_invariant [OF s(1)] s(3) by blast
  then have "kState (keeper s) = NotConnected" by (cases "kState (keeper s)") auto
  then show ?thesis using s count [of 1] count [of 2] unfolding sets by (intro exI [of _ s] conjI) simp_all
qed

text \<open>
  C3. Resume at the keeper: as long as no two read loops overlap (and fewer than 2^64 - 1 lines have
  been read), what \<open>Since\<close> answers behind a nonzero watermark is complete with respect to the
  lines read over the whole life of the keeper, across reconnects, or it reports a gap. The history
  it is complete for is the lines taken from the sockets, each with the epoch of its connection, in
  the order in which they were read and numbered from 1; at most the last line read is missing, and
  only while its loop has it in hand and has not pushed it yet.
\<close>

theorem keeper_Since_complete:
  assumes "keeper_reach serial cap s" and "w \<noteq> 0" and "w \<noteq> - 1"
  shows "\<exists>hist rest. numbered hist \<and> length hist \<le> unat (kSeqCounter (keeper s)) \<and>
    unat (kSeqCounter (keeper s)) \<le> length hist + 1 \<and>
    wire s = map (\<lambda>e. (eEpoch e, eLine e)) hist @ rest \<and> length rest \<le> 1 \<and>
    (\<forall>x \<in> set rest. \<exists>c ep pc. loops s c = Some (ep, pc) \<and> unstored ep pc = [x]) \<and>
    Since w (keeper s) = (if unat w < length hist - rCap (newRing cap) then ([], False)
      else (filter (\<lambda>e. eSeq e > w) hist, True))"
proof -
  obtain hist rest where hist: "kRing (keeper s) = fold (\<lambda>e r. fst (ring_push e r)) hist (newRing cap)"
    "numbered hist" "wire s = lines_of hist @ rest" "set rest = unstored_lines s" "length rest \<le> 1"
    "unat (kSeqCounter (keeper s)) = length hist \<or> unat (kSeqCounter (keeper s)) = length hist + 1"
    using keeper_reach_log [OF assms(1)] by (auto simp: log_ok_def split: if_splits)
  have "\<exists>c ep pc. loops s c = Some (ep, pc) \<and> unstored ep pc = [x]" if x: "x \<in> set rest" for x
  proof -
    obtain c ep pc where "loops s c = Some (ep, pc)" "x \<in> set (unstored ep pc)"
      using x hist(4) unfolding unstored_lines_def by blast
    then show ?thesis by (intro exI [of _ c] exI [of _ ep] exI [of _ pc]) (cases pc; simp)
  qed
  moreover have "Since w (keeper s) = (if unat w < length hist - rCap (newRing cap) then ([], False)
      else (filter (\<lambda>e. eSeq e > w) hist, True))"
    using rlog.since_push_all [of "newRing cap" hist w] assms(2,3) hist(1,2) by (simp add: Since_def rlog.push_all_def)
  ultimately show ?thesis using hist(2,3,5,6) by (intro exI [of _ hist] exI [of _ rest]) (auto simp: lines_of_def)
qed

lemma serial_one: "(\<And>d. d \<noteq> c \<Longrightarrow> loops s d = None) \<Longrightarrow> kSeqCounter (keeper s) \<noteq> - 1 \<Longrightarrow> serial s"
  unfolding serial_def by (metis option.distinct(1))

text \<open>One round of a read loop that runs alone.\<close>

lemma reach_read:
  assumes "keeper_reach serial cap s" and "loops s = [c \<mapsto> (ep, LReading)]" and "hasLineSubscribers (keeper s)"
    and "kSeqCounter (keeper s) + 1 \<noteq> - 1" and "ping_reply line = None"
  shows "\<exists>s'. keeper_reach serial cap s' \<and> loops s' = [c \<mapsto> (ep, LReading)] \<and> hasLineSubscribers (keeper s') \<and>
    kSeqCounter (keeper s') = kSeqCounter (keeper s) + 1 \<and> wire s' = wire s @ [(ep, line)]"
proof -
  let ?e = "\<lparr>eSeq = kSeqCounter (keeper s) + 1, eEpoch = ep, eLine = line, eTime = 0\<rparr>"
  define s1 where "s1 = set_pc c ep (LRead line) (s\<lparr>wire := wire s @ [(ep, line)]\<rparr>)"
  define s2 where "s2 = set_pc c ep (LNumbered ?e) (s1\<lparr>keeper := fst (nextSeq (keeper s1))\<rparr>)"
  define ev where "ev = snd (push_line ?e (keeper s2))"
  define s3 where "s3 = set_pc c ep (LPushed ?e ev) (s2\<lparr>keeper := fst (push_line ?e (keeper s2))\<rparr>)"
  define s4 where "s4 = set_pc c ep (LPublished ?e ev) (s3\<lparr>keeper := publishLine ?e (keeper s3)\<rparr>)"
  define s5 where "s5 = set_pc c ep LReading s4"
  note defs = s1_def s2_def s3_def s4_def s5_def
  have count: "kSeqCounter (keeper s1) = kSeqCounter (keeper s)" "kSeqCounter (keeper s2) = kSeqCounter (keeper s) + 1"
    "kSeqCounter (keeper s3) = kSeqCounter (keeper s) + 1" "kSeqCounter (keeper s4) = kSeqCounter (keeper s) + 1"
    "kSeqCounter (keeper s5) = kSeqCounter (keeper s) + 1"
    by (simp_all add: defs nextSeq_def push_line_def split: prod.split)
  have has: "hasLineSubscribers (keeper s4)"
    using assms(3) by (simp add: defs hasLineSubscribers_def nextSeq_def push_line_def publishLine_def split: prod.split)
  have "kSeqCounter (keeper s) \<noteq> - 1" using keeper_reach_log [OF assms(1)] by (simp add: serial_def)
  then have "serial s1" "serial s2" "serial s3" "serial s4" "serial s5"
    using count assms(2,4) by (auto intro!: serial_one [of c] simp: defs)
  moreover have "keeper_step s s1" unfolding s1_def by (rule read_line) (simp add: assms(2))
  moreover have "keeper_step s1 s2"
    using read_seq [of s1 c ep line "fst (nextSeq (keeper s1))" "kSeqCounter (keeper s) + 1" 0] count(1)
    by (simp add: s2_def nextSeq_def) (simp add: s1_def)
  moreover have "keeper_step s2 s3"
    using read_push [of s2 c ep ?e "fst (push_line ?e (keeper s2))" ev] by (simp add: s3_def ev_def) (simp add: s2_def)
  moreover have "keeper_step s3 s4" unfolding s4_def by (rule read_publish) (simp add: s3_def)
  moreover have "keeper_step s4 s5" unfolding s5_def by (rule read_quiet [of _ _ _ ?e ev]) (use has assms(5) in \<open>simp_all add: s4_def\<close>)
  ultimately have "keeper_reach serial cap s5" using assms(1) keeper_reach.step by meson
  moreover have "loops s5 = [c \<mapsto> (ep, LReading)]" "wire s5 = wire s @ [(ep, line)]" using assms(2) by (simp_all add: defs)
  moreover have "hasLineSubscribers (keeper s5)" using has by (simp add: s5_def)
  ultimately show ?thesis using count(5) by blast
qed

lemma reach_reading:
  "\<exists>s. keeper_reach serial 8 s \<and> loops s = [7 \<mapsto> (1, LReading)] \<and> hasLineSubscribers (keeper s) \<and>
     kSeqCounter (keeper s) = 0 \<and> wire s = []"
proof -
  let ?s0 = "init_sys 8"
  define s1 where "s1 = ?s0\<lparr>dials := 1\<rparr>"
  define s2 where "s2 = dialed 7 ?s0"
  define s3 where "s3 = set_pc 7 1 LReading (emit \<lparr>evKind = EventConnected, evEpoch = 1, evErr = None\<rparr> s2)"
  define s4 where "s4 = s3\<lparr>keeper := SubscribeLines 0 (keeper s3)\<rparr>"
  note defs = s1_def s2_def s3_def s4_def dialed_def init_sys_def New_def
  have "keeper_step ?s0 s1"
    using keeper_step.dial_start [of ?s0] by (simp add: s1_def Dial_check_def init_sys_def New_def)
  moreover have "keeper_step s1 s2"
    using keeper_step.dial_commit [of s1 7] by (simp add: defs Dial_commit_def set_pc_def)
  moreover have "keeper_step s2 s3" unfolding s3_def by (rule dial_spawn) (simp add: s2_def dialed_def init_sys_def New_def)
  moreover have "keeper_step s3 s4" unfolding s4_def by (rule keeper_step.client_op) blast
  moreover have "serial s1" "serial s2" "serial s3" "serial s4"
    by (auto intro!: serial_one [of 7] simp: defs publish_def)
  ultimately have "keeper_reach serial 8 s4" using keeper_reach.init keeper_reach.step by meson
  moreover have "loops s4 = [7 \<mapsto> (1, LReading)]" "wire s4 = []" "hasLineSubscribers (keeper s4)" "kSeqCounter (keeper s4) = 0"
    by (simp_all add: defs publish_def hasLineSubscribers_def SubscribeLines_def)
  ultimately show ?thesis by blast
qed

theorem keeper_Since_complete_witness:
  "\<exists>s e. keeper_reach serial 8 s \<and> wire s = [(1, ''a''), (1, ''b'')] \<and> eSeq e = 2 \<and> eLine e = ''b'' \<and>
     Since 1 (keeper s) = ([e], True)"
proof -
  obtain s0 where 0: "keeper_reach serial 8 s0" "loops s0 = [7 \<mapsto> (1, LReading)]" "hasLineSubscribers (keeper s0)"
    "kSeqCounter (keeper s0) = 0" "wire s0 = []" using reach_reading by blast
  have quiet: "ping_reply ''a'' = None" "ping_reply ''b'' = None" by code_simp+
  obtain s1 where 1: "keeper_reach serial 8 s1" "loops s1 = [7 \<mapsto> (1, LReading)]" "hasLineSubscribers (keeper s1)"
    "kSeqCounter (keeper s1) = 1" "wire s1 = [(1, ''a'')]"
    using reach_read [OF 0(1-3) _ quiet(1)] 0(4,5) by auto
  obtain s where s: "keeper_reach serial 8 s" "loops s = [7 \<mapsto> (1, LReading)]" "wire s = [(1, ''a''), (1, ''b'')]"
    using reach_read [OF 1(1-3) _ quiet(2)] 1(4,5) by auto
  obtain hist rest where h: "numbered hist" "wire s = map (\<lambda>e. (eEpoch e, eLine e)) hist @ rest"
    "\<forall>x \<in> set rest. \<exists>c ep pc. loops s c = Some (ep, pc) \<and> unstored ep pc = [x]"
    "Since 1 (keeper s) = (if unat (1 :: 64 word) < length hist - rCap (newRing 8) then ([], False)
      else (filter (\<lambda>e. eSeq e > 1) hist, True))"
    using keeper_Since_complete [OF s(1), of 1] by auto
  have "rest = []" using h(3) s(2) by (cases rest) (auto split: if_splits)
  then obtain e1 e2 where e: "hist = [e1, e2]" "eLine e2 = ''b''" using h(2) s(3) by (auto simp: map_eq_Cons_conv)
  have "unat (eSeq e1) = 1" "unat (eSeq e2) = 2" using h(1) e(1) by (auto simp: numbered_def nth_Cons split: nat.splits)
  then have "eSeq e1 = 1" "eSeq e2 = 2" by (simp_all add: word_unat_eq_iff)
  then have "Since 1 (keeper s) = ([e2], True)" using h(4) e(1) by (simp add: newRing_def)
  then show ?thesis using s e \<open>eSeq e2 = 2\<close> by blast
qed

text \<open>
  C9. No silent loss on a live subscription: for any interleaving of published lines and receives
  after \<open>SubscribeLines\<close>, either the overflow signal is up, or the lines received so far followed by
  the ones still buffered are exactly the lines published, in order.
\<close>

theorem subscription_no_silent_loss:
  assumes "run (sub_step ch) (SubscribeLines ch k) ops = (k', out)"
    and "map_of (kLineSubs k') ch = Some s" and "\<not> lsOverflow s"
  shows "published_entries ops = out @ lsQueue s"
  using sub_run_no_loss [OF _ assms] by (simp add: SubscribeLines_def)

theorem subscription_no_silent_loss_witness:
  "published_entries [Pub zero_entry, Recv, Pub zero_entry] = [zero_entry] @ [zero_entry]"
proof -
  let ?s = "\<lparr>lsQueue = [zero_entry], lsOverflow = False\<rparr>"
  let ?k = "(New 4)\<lparr>kLineSubs := [(0, ?s)]\<rparr>"
  have "run (sub_step 0) (SubscribeLines 0 (New 4)) [Pub zero_entry, Recv, Pub zero_entry] = (?k, [zero_entry])"
    by (simp add: SubscribeLines_def New_def publishLine_def recv_line_def offer_line_def lineSubBuffer_def)
  moreover have "map_of (kLineSubs ?k) 0 = Some ?s" by simp
  ultimately show ?thesis using subscription_no_silent_loss [of 0 "New 4" _ ?k "[zero_entry]" ?s] by simp
qed

text \<open>
  C29. Derived state of a new epoch can be lost: \<open>Close\<close> releases the lock before it clears the store
  of derived state, so a dial that goes through in between and the state pushed for it are followed
  by the clear of the old connection. A reachable state is connected in a later epoch with an entry
  stored for it, and one step, the clear of a close of the previous epoch, empties the store while
  the connection stays.
\<close>

theorem close_clears_next_epoch_blob:
  "\<exists>s s'. keeper_reach (\<lambda>_. True) cap s \<and> keeper_step s s' \<and>
     kConn (keeper s) = Some 1 \<and> kEpoch (keeper s) = 2 \<and> closers s = [(0, CClear)] \<and>
     BlobSnapshot (keeper s) = [(''caps'', [''sasl''])] \<and>
     kConn (keeper s') = Some 1 \<and> kState (keeper s') = Connected \<and> BlobSnapshot (keeper s') = []"
proof -
  define s1 where "s1 = dialed 0 (init_sys cap)"
  define s2 where "s2 = s1\<lparr>keeper := fst (Close_detach (keeper s1)), closers := [(0, CClear)]\<rparr>"
  define s3 where "s3 = dialed 1 s2"
  define s4 where "s4 = s3\<lparr>keeper := PushBlob ''caps'' BlobModeReplace ''sasl'' (keeper s3)\<rparr>"
  define s5 where "s5 = s4\<lparr>keeper := keeper_clear_blob (keeper s4), closers := [(0, CCancel)]\<rparr>"
  note defs = init_sys_def New_def dialed_def Close_detach_def set_pc_def
  have r1: "keeper_reach (\<lambda>_. True) cap s1" unfolding s1_def
    by (rule reach_dialed [OF keeper_reach.init]) (simp_all add: init_sys_def New_def)
  have "keeper_step s1 s2"
    using keeper_step.close_detach [of s1 _ 0] by (simp add: s2_def s1_def defs)
  then have r2: "keeper_reach (\<lambda>_. True) cap s2" using r1 reach_any by blast
  have r3: "keeper_reach (\<lambda>_. True) cap s3" unfolding s3_def
    by (rule reach_dialed [OF r2]) (auto simp: s2_def s1_def defs)
  have "keeper_step s3 s4" unfolding s4_def by (rule keeper_step.client_op) blast
  then have r4: "keeper_reach (\<lambda>_. True) cap s4" using r3 reach_any by blast
  have c4: "closers s4 = [] @ (0, CClear) # []"
    by (simp add: s4_def s3_def s2_def dialed_def)
  have "keeper_step s4 s5" using keeper_step.close_clear [OF c4] by (simp add: s5_def)
  moreover have "BlobSnapshot (keeper s4) = [(''caps'', [''sasl''])]"
    by (simp add: s4_def s3_def s2_def s1_def defs PushBlob_def BlobSnapshot_def blob_Push_def
        blob_Snapshot_def note_key_def newBlobStore_def map_get_def Let_def)
  moreover have "BlobSnapshot (keeper s5) = []"
    by (simp add: s5_def keeper_clear_blob_def BlobSnapshot_def blob_Snapshot_def blob_Clear_def)
  moreover have "kConn (keeper s4) = Some 1" "kEpoch (keeper s4) = 2" "kState (keeper s4) = Connected"
    by (simp_all add: s4_def s3_def s2_def s1_def defs)
  moreover have "kConn (keeper s5) = kConn (keeper s4)" "kState (keeper s5) = kState (keeper s4)"
    by (simp_all add: s5_def)
  ultimately show ?thesis using r4 c4 by (intro exI [of _ s4] exI [of _ s5]) simp
qed

end
