(* ===== verification/Keeper_Protocol.thy ===== *)
theory Keeper_Protocol
  imports Go_Prelude "HOL-Library.Word"
begin

text \<open>
  The frames between brain and keeper and the choice of the protocol version
  (\<open>src/internal/keeper/protocol.go\<close>, \<open>negotiateVersion\<close> in \<open>listener.go\<close>). The JSON encoding of the
  messages is not modelled: a frame is written from its marshalled body and read back to it.
\<close>

unbundle bit_operations_syntax

type_synonym msgType = "8 word"

definition maxFrameSize :: nat where "maxFrameSize = 1048576"

datatype frame_error = FrameTooLarge | EmptyFrame | EOF | ErrUnexpectedEOF

text \<open>
  \<open>binary.BigEndian.PutUint32\<close> and \<open>Uint32\<close>; the conversion to a byte keeps the low eight bits, as
  \<open>char_of\<close> does.
\<close>

definition word_byte :: "32 word \<Rightarrow> char" where
  "word_byte w = char_of (unat w)"

definition PutUint32 :: "32 word \<Rightarrow> string" where
  "PutUint32 n = [word_byte (drop_bit 24 n), word_byte (drop_bit 16 n), word_byte (drop_bit 8 n), word_byte n]"

definition byte_word :: "char \<Rightarrow> 32 word" where
  "byte_word c = word_of_nat (of_char c)"

fun Uint32 :: "string \<Rightarrow> 32 word" where
  "Uint32 [a, b, c, d] =
     byte_word d OR push_bit 8 (byte_word c) OR push_bit 16 (byte_word b) OR push_bit 24 (byte_word a)"
| "Uint32 _ = 0"

definition writeFrame :: "msgType \<Rightarrow> string \<Rightarrow> frame_error + string" where
  "writeFrame t body =
     (if length body + 1 > maxFrameSize then Inl FrameTooLarge
      else Inr (PutUint32 (word_of_nat (length body + 1)) @ [char_of (unat t)] @ body))"

text \<open>\<open>io.ReadFull\<close> on a reader that holds the bytes \<open>bs\<close> and then ends.\<close>

definition ReadFull :: "nat \<Rightarrow> string \<Rightarrow> frame_error + (string \<times> string)" where
  "ReadFull n bs =
     (if n \<le> length bs then Inr (take n bs, drop n bs) else Inl (if bs = [] then EOF else ErrUnexpectedEOF))"

definition readFrame :: "string \<Rightarrow> frame_error + (msgType \<times> string \<times> string)" where
  "readFrame bs =
     (case ReadFull 4 bs of
        Inl err \<Rightarrow> Inl err
      | Inr (lenBuf, rest) \<Rightarrow>
          let n = Uint32 lenBuf
          in if n = 0 then Inl EmptyFrame
             else if unat n > maxFrameSize then Inl FrameTooLarge
             else (case ReadFull (unat n) rest of
                     Inl err \<Rightarrow> Inl err
                   | Inr (buf, rest1) \<Rightarrow> Inr (word_of_nat (of_char (hd buf)), tl buf, rest1)))"

definition keeperMinVersion :: int where "keeperMinVersion = 1"
definition keeperMaxVersion :: int where "keeperMaxVersion = 1"

definition negotiateVersion :: "int \<Rightarrow> int \<Rightarrow> int option" where
  "negotiateVersion clientVersion clientMin =
     (let clientMin1 = (if clientMin \<le> 0 then 1 else clientMin);
          negotiated = (if clientVersion > keeperMaxVersion then keeperMaxVersion else clientVersion)
      in if negotiated < keeperMinVersion \<or> negotiated < clientMin1 then None else Some negotiated)"

section \<open>Frames\<close>

lemma byte_word_byte: "byte_word (word_byte w) = take_bit 8 w"
  by (simp add: byte_word_def word_byte_def of_char_of take_bit_eq_mod word_arith_nat_mod)

lemma type_byte: "(word_of_nat (unat t mod 256) :: 8 word) = t"
proof -
  have "unat t < 2 ^ LENGTH(8)" by (rule unsigned_less)
  then show ?thesis by simp
qed

lemma Uint32_PutUint32: "Uint32 (PutUint32 n) = n"
proof (rule bit_word_eqI)
  fix i assume "i < LENGTH(32)"
  then consider "i < 8" | "8 \<le> i" "i < 16" | "16 \<le> i" "i < 24" | "24 \<le> i" "i < 32"
    by fastforce
  then show "bit (Uint32 (PutUint32 n)) i = bit n i"
    by cases (simp_all add: PutUint32_def byte_word_byte bit_simps, linarith+)
qed

lemma length_PutUint32 [simp]: "length (PutUint32 n) = 4"
  by (simp add: PutUint32_def)

text \<open>
  C17. Frames round trip: reading back what \<open>writeFrame\<close> wrote gives the type and the body and leaves
  the reader at the first byte after the frame; \<open>writeFrame\<close> refuses exactly the bodies whose
  frame is above the size limit, and no frame that \<open>readFrame\<close> returns is above it.
\<close>

theorem readFrame_writeFrame:
  "(case writeFrame t body of
      Inr bs \<Rightarrow> readFrame (bs @ rest) = Inr (t, body, rest)
    | Inl _ \<Rightarrow> length body \<ge> maxFrameSize) \<and>
   (case readFrame input of Inr (_, b, _) \<Rightarrow> length b < maxFrameSize | Inl _ \<Rightarrow> True)"
proof
  show "case readFrame input of Inr (_, b, _) \<Rightarrow> length b < maxFrameSize | Inl _ \<Rightarrow> True"
    by (auto simp: readFrame_def ReadFull_def Let_def maxFrameSize_def min_def unat_gt_0 split: sum.splits if_splits)
  show "case writeFrame t body of Inr bs \<Rightarrow> readFrame (bs @ rest) = Inr (t, body, rest)
    | Inl _ \<Rightarrow> length body \<ge> maxFrameSize"
  proof (cases "length body + 1 > maxFrameSize")
    case True
    then show ?thesis by (simp add: writeFrame_def)
  next
    case False
    let ?n = "word_of_nat (length body + 1) :: 32 word"
    have n: "unat ?n = length body + 1"
      using False by (simp add: unat_of_nat maxFrameSize_def del: of_nat_Suc)
    then have "?n \<noteq> 0" by (metis unat_0 Suc_eq_plus1 nat.distinct(1))
    then show ?thesis
      using False n by (simp add: writeFrame_def readFrame_def ReadFull_def Uint32_PutUint32 type_byte Let_def
          del: of_nat_Suc of_nat_add)
  qed
qed

text \<open>
  C18. Version negotiation: the answer is the greatest version within both sides' ranges, and there is
  no answer exactly when the ranges do not meet.
\<close>

theorem negotiateVersion_greatest:
  "(case negotiateVersion cv cmin of
      Some v \<Rightarrow> keeperMinVersion \<le> v \<and> v \<le> keeperMaxVersion \<and> v \<le> cv \<and> max cmin 1 \<le> v \<and>
        (\<forall>u. u \<le> keeperMaxVersion \<longrightarrow> u \<le> cv \<longrightarrow> u \<le> v)
    | None \<Rightarrow> \<not> (\<exists>u. keeperMinVersion \<le> u \<and> u \<le> keeperMaxVersion \<and> max cmin 1 \<le> u \<and> u \<le> cv))"
  by (auto simp: negotiateVersion_def Let_def keeperMinVersion_def keeperMaxVersion_def)

theorem negotiateVersion_greatest_witness:
  "negotiateVersion 3 0 = Some 1 \<and> keeperMinVersion \<le> 1 \<and> keeperMaxVersion \<le> 1"
proof -
  have "negotiateVersion 3 0 = Some 1"
    by (simp add: negotiateVersion_def keeperMinVersion_def keeperMaxVersion_def)
  then show ?thesis using negotiateVersion_greatest [where cv = 3 and cmin = 0] by (auto simp: keeperMaxVersion_def)
qed

end
