(* ===== verification/IRC_Ircd.thy ===== *)
theory IRC_Ircd
  imports Go_Prelude
begin

text \<open>
  Server families (\<open>src/internal/irc/ircd.go\<close>): detection from the registration banner, and the
  numerics that a family uses for MAP and WHOIS. A set of numerics, in the code a map to \<open>true\<close>, is
  the list of its keys.
\<close>

definition IRCdUnknown :: string where "IRCdUnknown = ''''"
definition IRCdInspIRCd :: string where "IRCdInspIRCd = ''inspircd''"
definition IRCdUnreal :: string where "IRCdUnreal = ''unrealircd''"
definition IRCdSolanum :: string where "IRCdSolanum = ''solanum''"
definition IRCdCharybdis :: string where "IRCdCharybdis = ''charybdis''"
definition IRCdSeven :: string where "IRCdSeven = ''ircd-seven''"
definition IRCdRatbox :: string where "IRCdRatbox = ''ratbox''"
definition IRCdHybrid :: string where "IRCdHybrid = ''hybrid''"
definition IRCdBahamut :: string where "IRCdBahamut = ''bahamut''"
definition IRCdNgIRCd :: string where "IRCdNgIRCd = ''ngircd''"
definition IRCdOragono :: string where "IRCdOragono = ''oragono''"
definition IRCdErgo :: string where "IRCdErgo = ''ergo''"
definition IRCdSnircd :: string where "IRCdSnircd = ''snircd''"
definition IRCdIrcu :: string where "IRCdIrcu = ''ircu''"
definition IRCdIrc2 :: string where "IRCdIrc2 = ''ircd-irc2''"

lemmas ircd_names =
  IRCdUnknown_def IRCdInspIRCd_def IRCdUnreal_def IRCdSolanum_def IRCdCharybdis_def IRCdSeven_def
  IRCdRatbox_def IRCdHybrid_def IRCdBahamut_def IRCdNgIRCd_def IRCdOragono_def IRCdErgo_def
  IRCdSnircd_def IRCdIrcu_def IRCdIrc2_def

definition DetectIRCd :: "string \<Rightarrow> string" where
  "DetectIRCd txt =
     (let s = to_lower txt
      in if contains s ''inspircd'' then IRCdInspIRCd
         else if contains s ''unrealircd'' \<or> contains s ''unreal-'' then IRCdUnreal
         else if contains s ''solanum'' then IRCdSolanum
         else if contains s ''charybdis'' then IRCdCharybdis
         else if contains s ''ircd-seven'' \<or> contains s ''ircd seven'' \<or> contains s ''ircdseven'' then IRCdSeven
         else if contains s ''ircd-ratbox'' \<or> contains s ''ratbox'' then IRCdRatbox
         else if contains s ''ircd-hybrid'' \<or> contains s ''hybrid'' then IRCdHybrid
         else if contains s ''bahamut'' then IRCdBahamut
         else if contains s ''ngircd'' then IRCdNgIRCd
         else if contains s ''oragono'' then IRCdOragono
         else if contains s ''ergo'' then IRCdErgo
         else if contains s ''snircd'' then IRCdSnircd
         else if contains s ''u2.10.'' \<or> contains s ''ircu'' \<or> contains s ''undernet'' then IRCdIrcu
         else if contains s ''ircd-irc2'' \<or> contains s ''2.11.'' then IRCdIrc2
         else IRCdUnknown)"

definition DetectIRCdFrom004 :: "string \<Rightarrow> string" where
  "DetectIRCdFrom004 version = (if version = [] then IRCdUnknown else DetectIRCd version)"

definition MAPEndCodes :: "string \<Rightarrow> string list" where
  "MAPEndCodes ircd =
     (if ircd \<in> set [IRCdIrcu, IRCdSnircd] then [''017'']
      else if ircd \<in> set [IRCdUnreal, IRCdInspIRCd] then [''007'']
      else if ircd = IRCdBahamut then [''007'']
      else [''017'', ''007'', ''359''])"

definition MAPReplyCodes :: "string \<Rightarrow> string list" where
  "MAPReplyCodes ircd =
     MAPEndCodes ircd @
     (if ircd \<in> set [IRCdIrcu, IRCdSnircd] then [''015'', ''016'']
      else if ircd = IRCdUnreal then [''006'']
      else if ircd = IRCdInspIRCd then [''006'', ''018'']
      else [''006'', ''015'', ''016'', ''018'', ''357'', ''358''])"

definition IsWHOISReply :: "string \<Rightarrow> string \<Rightarrow> bool" where
  "IsWHOISReply numeric ircd =
     (if numeric \<in> set [''301'', ''311'', ''312'', ''313'', ''317'', ''318'', ''319'', ''401''] then True
      else if ircd \<in> set [IRCdIrcu, IRCdSnircd] then numeric \<in> set [''330'', ''338'', ''671'']
      else if ircd = IRCdUnreal
      then numeric \<in> set [''276'', ''307'', ''310'', ''320'', ''335'', ''378'', ''379'', ''671'']
      else if ircd = IRCdBahamut then numeric \<in> set [''307'', ''338'']
      else if ircd \<in> set [IRCdInspIRCd, IRCdErgo, IRCdOragono]
      then numeric \<in> set [''276'', ''330'', ''671'', ''672'', ''673'', ''674'']
      else if ircd \<in> set [IRCdRatbox, IRCdCharybdis, IRCdSolanum, IRCdSeven, IRCdHybrid]
      then numeric \<in> set [''276'', ''330'', ''335'', ''337'', ''338'', ''671'']
      else if ircd \<in> set [IRCdNgIRCd, IRCdIrc2] then False
      else numeric \<in> set [''276'', ''307'', ''310'', ''320'', ''325'', ''330'', ''335'', ''336'', ''337'',
                            ''338'', ''378'', ''379'', ''671'', ''672'', ''673'', ''674''])"

lemma MAPEnd_reply: "set (MAPEndCodes ircd) \<subseteq> set (MAPReplyCodes ircd)"
  by (simp add: MAPReplyCodes_def)

end
