(* ===== verification/Tracker_Codes.thy ===== *)
theory Tracker_Codes
  imports IRC_Ircd IRC_Casemap IRC_Message
begin

text \<open>
  The stateless part of the request tracker (\<open>src/internal/session/tracker.go\<close>): the numerics that
  belong to and end each kind of enquiry, how a request's target, server and list letters are
  normalised into routing keys, and where a numeric carries the key. A set of numerics is the list
  of its members.
\<close>

section \<open>Numerics of an enquiry\<close>

definition lusersEndCodes :: "string \<Rightarrow> string list" where
  "lusersEndCodes ircd = (if ircd \<in> set [IRCdIrcu, IRCdSnircd] then [''255''] else [''266''])"

definition endCodesFor :: "string \<Rightarrow> string \<Rightarrow> string list" where
  "endCodesFor cmd ircd =
     (if cmd \<in> set [''WHO'', ''WHOX''] then [''315'', ''403'', ''402'']
      else if cmd = ''WHOIS'' then [''318'']
      else if cmd = ''WHOWAS'' then [''369'', ''431'']
      else if cmd = ''STATS'' then [''219'', ''402'']
      else if cmd = ''LIST'' then [''323'', ''402'']
      else if cmd = ''NAMES'' then [''366'', ''401'', ''403'']
      else if cmd = ''LINKS'' then [''365'', ''402'']
      else if cmd = ''MAP'' then MAPEndCodes ircd
      else if cmd = ''ISON'' then [''303'', ''461'']
      else if cmd = ''USERHOST'' then [''302'', ''461'']
      else if cmd = ''LUSERS'' then lusersEndCodes ircd
      else if cmd = ''TIME'' then [''391'', ''402'']
      else if cmd = ''TRACE'' then [''262'', ''402'', ''481'', ''421'']
      else if cmd = ''USERS'' then [''394'', ''395'', ''446'', ''266'', ''402'', ''424'', ''421'']
      else if cmd = ''HELP'' then [''706'', ''524'']
      else if cmd = ''ADMIN'' then [''259'', ''402'']
      else if cmd = ''MODE''
       then [''221'', ''324'', ''368'', ''349'', ''347'', ''729'', ''401'', ''403'',
             ''442'', ''461'', ''472'', ''482'']
      else if cmd = ''TOPIC'' then [''331'', ''333'', ''401'', ''403'', ''442'', ''461'']
      else if cmd = ''SILENCE'' then [''272'']
      else [])"

definition replyCodesFor :: "string \<Rightarrow> string \<Rightarrow> string list" where
  "replyCodesFor cmd ircd =
     (if cmd \<in> set [''WHO'', ''WHOX''] then [''352'', ''315'', ''354'', ''402'', ''403'']
      else if cmd = ''WHOWAS'' then [''314'', ''312'', ''330'', ''338'', ''406'', ''369'', ''431'']
      else if cmd = ''LIST'' then [''321'', ''322'', ''323'', ''402'']
      else if cmd = ''NAMES'' then [''353'', ''366'', ''401'', ''403'']
      else if cmd = ''LINKS'' then [''364'', ''365'', ''402'']
      else if cmd = ''STATS''
       then [''211'', ''212'', ''213'', ''214'', ''215'', ''216'', ''217'', ''218'',
             ''219'', ''241'', ''242'', ''243'', ''244'', ''245'', ''246'', ''247'',
             ''248'', ''249'', ''250'', ''402'']
      else if cmd = ''MAP'' then MAPReplyCodes ircd
      else if cmd = ''ISON'' then [''303'', ''461'']
      else if cmd = ''USERHOST'' then [''302'', ''461'']
      else if cmd = ''LUSERS'' then [''250'', ''251'', ''252'', ''253'', ''254'', ''255'', ''265'', ''266'']
      else if cmd = ''TIME'' then [''391'', ''402'']
      else if cmd = ''TRACE''
       then [''200'', ''201'', ''202'', ''203'', ''204'', ''205'', ''206'', ''208'',
             ''261'', ''262'', ''402'', ''481'', ''421'']
      else if cmd = ''USERS''
       then [''265'', ''266'', ''392'', ''393'', ''394'', ''395'', ''402'', ''424'',
             ''446'', ''421'']
      else if cmd = ''HELP'' then [''704'', ''705'', ''706'', ''524'']
      else if cmd = ''ADMIN'' then [''256'', ''257'', ''258'', ''259'', ''402'']
      else if cmd = ''MODE''
       then [''221'', ''324'', ''329'', ''367'', ''368'', ''348'', ''349'', ''346'',
             ''347'', ''728'', ''729'', ''401'', ''403'', ''442'', ''461'', ''472'',
             ''482'']
      else if cmd = ''TOPIC'' then [''331'', ''332'', ''333'', ''401'', ''403'', ''442'', ''461'']
      else if cmd = ''SILENCE'' then [''271'', ''272'']
      else endCodesFor cmd ircd)"

definition IsSolicitous :: "string \<Rightarrow> bool" where
  "IsSolicitous cmd \<longleftrightarrow>
     cmd \<in> set [''WHO'', ''WHOIS'', ''WHOWAS'', ''STATS'', ''LIST'', ''LINKS'', ''NAMES'', ''USERHOST'', ''ISON'',
                  ''LUSERS'', ''TIME'', ''TRACE'', ''USERS'', ''MAP'', ''HELP'', ''ADMIN'']"

definition holdWrite :: "string \<Rightarrow> bool" where
  "holdWrite cmd \<longleftrightarrow>
     cmd \<in> set [''LIST'', ''WHO'', ''WHOX'', ''NAMES'', ''LINKS'', ''MAP'', ''LUSERS'', ''TRACE'', ''USERS'',
                  ''HELP'', ''ADMIN'', ''SILENCE'', ''WHOWAS'']"

definition takesServerTarget :: "string \<Rightarrow> bool" where
  "takesServerTarget cmd \<longleftrightarrow>
     cmd \<in> set [''TIME'', ''ADMIN'', ''USERS'', ''TRACE'', ''MAP'', ''LIST'', ''LINKS'', ''LUSERS'', ''WHOWAS'']"

definition serialKindOrder :: "string list" where
  "serialKindOrder =
     [''LIST'', ''WHO'', ''WHOX'', ''NAMES'', ''ISON'', ''USERHOST'', ''LUSERS'', ''LINKS'', ''MAP'', ''WHOWAS'',
      ''TIME'', ''TRACE'', ''USERS'', ''HELP'', ''ADMIN'', ''SILENCE'']"

definition isSTATSNumeric :: "string \<Rightarrow> bool" where
  "isSTATSNumeric cmd \<longleftrightarrow>
     cmd \<in> set [''211'', ''212'', ''213'', ''214'', ''215'', ''216'', ''217'', ''218'', ''219'', ''241'', ''242'',
                  ''243'', ''244'', ''245'', ''246'', ''247'', ''248'', ''249'', ''250'']"

definition modeNumericLetter :: "string \<Rightarrow> string option" where
  "modeNumericLetter cmd =
     (if cmd \<in> set [''221'', ''324'', ''329''] then Some []
      else if cmd \<in> set [''367'', ''368''] then Some ''b''
      else if cmd \<in> set [''348'', ''349''] then Some ''e''
      else if cmd \<in> set [''346'', ''347''] then Some ''I''
      else if cmd \<in> set [''728'', ''729''] then Some ''q''
      else None)"

definition isModeEnquiryError :: "string \<Rightarrow> bool" where
  "isModeEnquiryError cmd \<longleftrightarrow> cmd \<in> set [''401'', ''403'', ''442'', ''461'', ''472'', ''482'']"

definition isLikelyReply :: "string \<Rightarrow> bool" where
  "isLikelyReply cmd \<longleftrightarrow> length cmd = 3 \<and> list_all is_digit_byte cmd"

section \<open>Routing keys of a request\<close>

definition whoisRemoteNick :: string where "whoisRemoteNick = [NUL]"

definition whoisOutbound :: "string \<Rightarrow> string \<Rightarrow> message" where
  "whoisOutbound nick remote =
     (if remote = [] then mk_message [] ''WHOIS'' [nick]
      else if remote = whoisRemoteNick then mk_message [] ''WHOIS'' [nick, nick]
      else mk_message [] ''WHOIS'' [remote, nick])"

definition foldServer :: "string \<Rightarrow> string" where
  "foldServer s = to_lower (trim_space s)"

definition ParseWHOISRemote :: "string list \<Rightarrow> CaseMapping \<Rightarrow> string" where
  "ParseWHOISRemote params cm =
     (case params of
        p0 # p1 # _ \<Rightarrow>
          if p1 = [] then [] else if Equal cm p0 p1 then whoisRemoteNick else foldServer p0
      | _ \<Rightarrow> [])"

definition fold_param :: "nat \<Rightarrow> string list \<Rightarrow> string" where
  "fold_param i params = (if length params > i then foldServer (params ! i) else [])"

definition EnquiryRemote :: "string \<Rightarrow> string list \<Rightarrow> CaseMapping \<Rightarrow> string" where
  "EnquiryRemote cmd params cm =
     (if cmd = ''WHOIS'' then ParseWHOISRemote params cm
      else if cmd = ''STATS'' then fold_param 1 params
      else if cmd \<in> set [''NAMES'', ''LIST''] then fold_param 1 params
      else if cmd \<in> set [''TIME'', ''ADMIN'', ''USERS'', ''TRACE'', ''MAP''] then fold_param 0 params
      else if cmd = ''LUSERS'' then fold_param 1 params
      else if cmd = ''LINKS'' then fold_param 0 params
      else if cmd = ''WHOWAS'' then fold_param 2 params
      else [])"

definition ParseWHOISTargets :: "string list \<Rightarrow> string list" where
  "ParseWHOISTargets params =
     (case params of
        [] \<Rightarrow> []
      | p0 # ps \<Rightarrow>
          let nickParam = (case ps of [] \<Rightarrow> p0 | p1 # _ \<Rightarrow> if equal_fold p0 p1 then p0 else p1)
          in filter (\<lambda>n. n \<noteq> []) (map trim_space (split_byte (CHR '','') nickParam)))"

definition foldStatsLetter :: "string \<Rightarrow> string" where
  "foldStatsLetter s = to_lower (trim_space s)"

definition ParseStatsLetter :: "string list \<Rightarrow> string" where
  "ParseStatsLetter params =
     (case params of [] \<Rightarrow> [] | p # _ \<Rightarrow> if p = [] then [] else foldStatsLetter p)"

definition whoxFieldsKey :: "string \<Rightarrow> string" where
  "whoxFieldsKey fs = filter (\<lambda>c. \<not> (c = CHR ''t'' \<or> c = CHR ''T'')) fs"

definition modeMapKey :: "string \<Rightarrow> string \<Rightarrow> string" where
  "modeMapKey target letters = target @ [NUL] @ letters"

definition modeKeyTarget :: "string \<Rightarrow> string" where
  "modeKeyTarget key = (case index_byte key NUL of Some i \<Rightarrow> take i key | None \<Rightarrow> key)"

definition modeKeyLetters :: "string \<Rightarrow> string" where
  "modeKeyLetters key = (case index_byte key NUL of Some i \<Rightarrow> drop (i + 1) key | None \<Rightarrow> [])"

text \<open>The array \<open>seen\<close> of 256 flags is the list of letters seen; the last loop runs over all bytes.\<close>

definition normalizeModeListLetters :: "string \<Rightarrow> string" where
  "normalizeModeListLetters modes =
     (let seen = filter (\<lambda>c. \<not> (c = CHR ''+'' \<or> c = CHR ''-'')) modes
      in filter (\<lambda>c. c \<in> set seen) ''beIq'' @
         filter (\<lambda>c. c \<in> set seen \<and> c \<notin> set ''beIq'') (map char_of [0..<256 :: nat]))"

section \<open>Where a numeric names its target\<close>

definition canonical_param :: "CaseMapping \<Rightarrow> message \<Rightarrow> nat \<Rightarrow> string" where
  "canonical_param cm msg i = (if length (Params msg) > i then Canonical cm (Params msg ! i) else [])"

definition modeEnquiryNumericTarget :: "message \<Rightarrow> CaseMapping \<Rightarrow> string" where
  "modeEnquiryNumericTarget msg cm =
     (if Command msg = ''221'' then canonical_param cm msg 0
      else if Command msg \<in> set [''324'', ''329'', ''367'', ''368'', ''348'', ''349'', ''346'', ''347'', ''728'', ''729'',
                                  ''403'', ''442'', ''472'', ''482'']
      then canonical_param cm msg 1
      else if Command msg \<in> set [''401'', ''461''] then canonical_param cm msg 1
      else [])"

definition topicEnquiryNumericTarget :: "message \<Rightarrow> CaseMapping \<Rightarrow> string" where
  "topicEnquiryNumericTarget msg cm =
     (if Command msg \<in> set [''331'', ''332'', ''333'', ''401'', ''403'', ''442'', ''461'']
      then canonical_param cm msg 1 else [])"

definition namesNumericTarget :: "message \<Rightarrow> CaseMapping \<Rightarrow> string" where
  "namesNumericTarget msg cm =
     (if Command msg = ''353'' then canonical_param cm msg 2
      else if Command msg \<in> set [''366'', ''401'', ''403''] then canonical_param cm msg 1
      else [])"

section \<open>Identifiers of labels\<close>

definition digits36 :: string where "digits36 = ''0123456789abcdefghijklmnopqrstuvwxyz''"

text \<open>The loop that fills the buffer from its end; \<open>acc\<close> is the part filled.\<close>

function format_digits :: "nat \<Rightarrow> string \<Rightarrow> string" where
  "format_digits n acc = (if n > 0 then format_digits (n div 36) (digits36 ! (n mod 36) # acc) else acc)"
  by auto
termination by (relation "measure fst") auto

declare format_digits.simps [simp del]

definition formatID :: "string \<Rightarrow> nat \<Rightarrow> string" where
  "formatID prefix n = (if n = 0 then prefix @ ''0'' else prefix @ format_digits n [])"

section \<open>Lemmas\<close>

text \<open>
  C28. Every numeric that ends an enquiry is one of the enquiry's replies, for every command and server
  family: a queue that only receives the replies of its head can always be ended by one of them.
\<close>

theorem end_codes_are_replies: "set (endCodesFor cmd ircd) \<subseteq> set (replyCodesFor cmd ircd)"
proof -
  let ?known = "[''WHO'', ''WHOX'', ''WHOIS'', ''WHOWAS'', ''STATS'', ''LIST'', ''NAMES'', ''LINKS'', ''MAP'', ''ISON'',
    ''USERHOST'', ''LUSERS'', ''TIME'', ''TRACE'', ''USERS'', ''HELP'', ''ADMIN'', ''MODE'', ''TOPIC'', ''SILENCE'']"
  have "\<forall>c \<in> set ?known. set (endCodesFor c ircd) \<subseteq> set (replyCodesFor c ircd)"
    using MAPEnd_reply [of ircd] by (simp add: endCodesFor_def replyCodesFor_def lusersEndCodes_def)
  moreover have "set (endCodesFor cmd ircd) \<subseteq> set (replyCodesFor cmd ircd)" if "cmd \<notin> set ?known"
    using that by (simp add: replyCodesFor_def)
  ultimately show ?thesis by blast
qed

text \<open>The key of a MODE enquiry gives back its parts, as channel and nick names hold no NUL.\<close>

lemma modeKey_parts:
  assumes "NUL \<notin> set target"
  shows "modeKeyTarget (modeMapKey target letters) = target"
    and "modeKeyLetters (modeMapKey target letters) = letters"
  using index_byte_append_notin [OF assms, of letters]
  by (simp_all add: modeKeyTarget_def modeKeyLetters_def modeMapKey_def)

text \<open>Reading the digits back.\<close>

lemma digits36_inj: "i < 36 \<Longrightarrow> j < 36 \<Longrightarrow> digits36 ! i = digits36 ! j \<longleftrightarrow> i = j"
proof -
  have "distinct digits36" by (simp add: digits36_def)
  then show "i < 36 \<Longrightarrow> j < 36 \<Longrightarrow> digits36 ! i = digits36 ! j \<longleftrightarrow> i = j"
    by (simp add: nth_eq_iff_index_eq digits36_def)
qed

lemma format_digits_0 [simp]: "format_digits 0 acc = acc"
  by (simp add: format_digits.simps [of 0])

lemma format_digits_acc: "format_digits n acc = format_digits n [] @ acc"
proof (induction n arbitrary: acc rule: less_induct)
  case (less n)
  show ?case
  proof (cases "n > 0")
    case True
    then have "n div 36 < n" by simp
    then show ?thesis
      using less.IH [of "n div 36" "digits36 ! (n mod 36) # acc"] less.IH [of "n div 36" "[digits36 ! (n mod 36)]"] True
      by (simp add: format_digits.simps [of n])
  next
    case False
    then show ?thesis by simp
  qed
qed

lemma format_digits_pos: "n > 0 \<Longrightarrow> format_digits n [] = format_digits (n div 36) [] @ [digits36 ! (n mod 36)]"
  using format_digits_acc [of "n div 36" "[digits36 ! (n mod 36)]"] by (simp add: format_digits.simps [of n])

lemma format_digits_inj: "format_digits m [] = format_digits n [] \<Longrightarrow> m = n"
proof (induction m arbitrary: n rule: less_induct)
  case (less m)
  show ?case
  proof (cases "m = 0 \<or> n = 0")
    case True
    then show ?thesis using less.prems format_digits_pos [of m] format_digits_pos [of n] by (cases "m = 0"; cases "n = 0") auto
  next
    case False
    then have eq: "format_digits (m div 36) [] = format_digits (n div 36) []"
      "digits36 ! (m mod 36) = digits36 ! (n mod 36)"
      using less.prems by (simp_all add: format_digits_pos)
    then have "m mod 36 = n mod 36" by (simp add: digits36_inj)
    moreover have "m div 36 = n div 36" using less.IH [OF _ eq(1)] False by simp
    ultimately show ?thesis by (metis div_mod_decomp)
  qed
qed

lemma formatID_inj: "formatID p m = formatID p n \<Longrightarrow> m > 0 \<Longrightarrow> n > 0 \<Longrightarrow> m = n"
  by (simp add: formatID_def format_digits_inj)

end
