(* ===== verification/Session_Tracker.thy ===== *)
theory Session_Tracker
  imports Tracker_Codes "HOL-Library.Word"
begin

text \<open>
  The request tracker of a session (\<open>src/internal/session/tracker.go\<close>): which downlink gets the
  replies to an enquiry, which enquiries share one write, and which must wait before they are
  written.

  A request is owned by exactly one container, so the pointers of the code are values here: an
  operation that changes a request puts the changed value back. A request that coalesced onto
  another is kept as a waiter, with the four fields that are still read. The time is an argument,
  in nanoseconds. Where the code ranges over a map, the model goes through the association list;
  the theorems hold for every order of that list. \<open>nil\<close> and the empty slice of destinations are
  both \<open>[]\<close>, since a request always has at least one destination.
\<close>

section \<open>State\<close>

type_synonym ClientID = string

record waiter =
  wClient :: ClientID
  wClientLabel :: string
  wStripToken :: bool
  wClientToken :: string

record pendingRequest =
  Client :: ClientID
  ClientLabel :: string
  rCommand :: string
  Label :: string
  Target :: string
  WHOXToken :: string
  WHOXStripToken :: bool
  WHOXClientToken :: string
  EndCodes :: "string list"
  ReplyCodes :: "string list"
  Created :: int
  Outbound :: message
  HoldWrite :: bool
  extra :: "waiter list"
  ModeLetters :: string
  WHOXFlags :: string
  WHOXFields :: string
  Remote :: string

record RouteDest =
  dClient :: ClientID
  EchoLabel :: string
  StripWHOX :: bool
  RestoreWHOX :: string

record stickyRoute =
  sDests :: "RouteDest list"
  sCode :: string
  sCreated :: int

definition requestTTL :: int where "requestTTL = 600000000000"

type_synonym queues = "(string, pendingRequest list) gomap"

record RequestTracker =
  labeled :: "(string, pendingRequest) gomap"
  whox :: "(string, pendingRequest) gomap"
  whois :: queues
  stats :: queues
  rmode :: queues
  topic :: queues
  names :: queues
  serial :: queues
  ready :: "message list"
  sticky :: "(string, stickyRoute) gomap"
  ircd :: string
  nextLbl :: "64 word"
  nextTok :: "64 word"

definition NewRequestTracker :: RequestTracker where
  "NewRequestTracker =
     \<lparr>labeled = [], whox = [], whois = [], stats = [], rmode = [], topic = [], names = [], serial = [],
      ready = [], sticky = [], ircd = [], nextLbl = 0, nextTok = 0\<rparr>"

definition SetIRCd :: "string \<Rightarrow> RequestTracker \<Rightarrow> RequestTracker" where
  "SetIRCd family rt = rt\<lparr>ircd := family\<rparr>"

section \<open>One request\<close>

definition destsOf :: "pendingRequest \<Rightarrow> RouteDest list" where
  "destsOf req =
     \<lparr>dClient = Client req, EchoLabel = ClientLabel req, StripWHOX = WHOXStripToken req,
      RestoreWHOX = WHOXClientToken req\<rparr> #
     map (\<lambda>e. \<lparr>dClient = wClient e, EchoLabel = wClientLabel e, StripWHOX = wStripToken e,
               RestoreWHOX = wClientToken e\<rparr>) (extra req)"

definition waiter_of :: "pendingRequest \<Rightarrow> waiter" where
  "waiter_of req = \<lparr>wClient = Client req, wClientLabel = ClientLabel req,
                    wStripToken = WHOXStripToken req, wClientToken = WHOXClientToken req\<rparr>"

definition fixWHOXRewrite :: "bool \<Rightarrow> waiter \<Rightarrow> waiter" where
  "fixWHOXRewrite headInjectedT w =
     (if wClientToken w \<noteq> [] then w\<lparr>wStripToken := False\<rparr> else w\<lparr>wStripToken := headInjectedT\<rparr>)"

definition coalesce :: "pendingRequest \<Rightarrow> pendingRequest \<Rightarrow> pendingRequest" where
  "coalesce req other =
     (if Client other = Client req then req
      else if list_ex (\<lambda>e. wClient e = Client other) (extra req) then req
      else req\<lparr>extra := extra req @ [fixWHOXRewrite (WHOXStripToken req) (waiter_of other)]\<rparr>)"

text \<open>The second component is true when nobody is left.\<close>

definition req_dropClient :: "ClientID \<Rightarrow> pendingRequest \<Rightarrow> pendingRequest \<times> bool" where
  "req_dropClient client req =
     (if Client req = client
      then (case extra req of
              [] \<Rightarrow> (req, True)
            | h # es \<Rightarrow>
                (req\<lparr>Client := wClient h, ClientLabel := wClientLabel h, WHOXStripToken := wStripToken h,
                     WHOXClientToken := wClientToken h, extra := es\<rparr>, False))
      else (req\<lparr>extra := filter (\<lambda>e. wClient e \<noteq> client) (extra req)\<rparr>, False))"

section \<open>Queues of requests\<close>

text \<open>\<open>enqueueHeldWrite\<close> on the first request of a queue: the queue and the lines released.\<close>

definition enqueueHeldWrite :: "pendingRequest list \<Rightarrow> pendingRequest list \<times> message list" where
  "enqueueHeldWrite q =
     (case q of
        [] \<Rightarrow> ([], [])
      | req # rest \<Rightarrow>
          if HoldWrite req
          then (req\<lparr>HoldWrite := False\<rparr> # rest,
                if Command (Outbound req) \<noteq> [] \<or> Raw (Outbound req) \<noteq> [] then [Outbound req] else [])
          else (q, []))"

definition popWaiters :: "string \<Rightarrow> queues \<Rightarrow> queues \<times> message list" where
  "popWaiters key qs =
     (case map_get [] qs key of
        [] \<Rightarrow> (qs, [])
      | req # rest \<Rightarrow>
          if rest = [] then (map_del key qs, [])
          else case enqueueHeldWrite rest of (q, out) \<Rightarrow> (map_put key q qs, out))"

fun drop_waiters :: "ClientID \<Rightarrow> pendingRequest list \<Rightarrow> pendingRequest list" where
  "drop_waiters client [] = []"
| "drop_waiters client (req # q) =
     (case req_dropClient client req of
        (req1, True) \<Rightarrow> drop_waiters client q
      | (req1, False) \<Rightarrow> req1 # drop_waiters client q)"

fun dropQueueClient :: "ClientID \<Rightarrow> queues \<Rightarrow> queues \<times> message list" where
  "dropQueueClient client [] = ([], [])"
| "dropQueueClient client ((target, q) # qs) =
     (let kept = drop_waiters client q;
          droppedHead = (q \<noteq> [] \<and> snd (req_dropClient client (hd q)))
      in case dropQueueClient client qs of
           (qs1, out1) \<Rightarrow>
             if kept = [] then (qs1, out1)
             else if droppedHead
             then (case enqueueHeldWrite kept of (q1, out) \<Rightarrow> ((target, q1) # qs1, out @ out1))
             else ((target, kept) # qs1, out1))"

fun drop_serial :: "ClientID \<Rightarrow> queues \<Rightarrow> queues \<times> message list" where
  "drop_serial client [] = ([], [])"
| "drop_serial client ((kind, q) # qs) =
     (let kept = filter (\<lambda>req. Client req \<noteq> client) q;
          droppedHead = (q \<noteq> [] \<and> Client (hd q) = client)
      in case drop_serial client qs of
           (qs1, out1) \<Rightarrow>
             if kept = [] then (qs1, out1)
             else if droppedHead
             then (case enqueueHeldWrite kept of (q1, out) \<Rightarrow> ((kind, q1) # qs1, out @ out1))
             else ((kind, kept) # qs1, out1))"

definition stale :: "int \<Rightarrow> pendingRequest \<Rightarrow> bool" where
  "stale now req \<longleftrightarrow> now - Created req > requestTTL"

fun expireQueue :: "int \<Rightarrow> queues \<Rightarrow> queues \<times> message list" where
  "expireQueue now [] = ([], [])"
| "expireQueue now ((key, q) # qs) =
     (let kept = filter (\<lambda>req. \<not> stale now req) q;
          droppedHead = (q \<noteq> [] \<and> stale now (hd q))
      in case expireQueue now qs of
           (qs1, out1) \<Rightarrow>
             if length kept = length q then ((key, q) # qs1, out1)
             else if kept = [] then (qs1, out1)
             else if droppedHead
             then (case enqueueHeldWrite kept of (q1, out) \<Rightarrow> ((key, q1) # qs1, out @ out1))
             else ((key, kept) # qs1, out1))"

definition expireLocked :: "int \<Rightarrow> RequestTracker \<Rightarrow> RequestTracker" where
  "expireLocked now rt =
     (case expireQueue now (whois rt) of (whois1, o1) \<Rightarrow>
      case expireQueue now (stats rt) of (stats1, o2) \<Rightarrow>
      case expireQueue now (rmode rt) of (mode1, o3) \<Rightarrow>
      case expireQueue now (topic rt) of (topic1, o4) \<Rightarrow>
      case expireQueue now (names rt) of (names1, o5) \<Rightarrow>
      case expireQueue now (serial rt) of (serial1, o6) \<Rightarrow>
        rt\<lparr>labeled := filter (\<lambda>(_, req). \<not> stale now req) (labeled rt),
           whox := filter (\<lambda>(_, req). \<not> stale now req) (whox rt),
           whois := whois1, stats := stats1, rmode := mode1, topic := topic1, names := names1,
           serial := serial1,
           sticky := filter (\<lambda>(_, s). \<not> (now - sCreated s > requestTTL)) (sticky rt),
           ready := ready rt @ o1 @ o2 @ o3 @ o4 @ o5 @ o6\<rparr>)"

definition drop_keyed :: "ClientID \<Rightarrow> (string, pendingRequest) gomap \<Rightarrow> (string, pendingRequest) gomap" where
  "drop_keyed client m =
     map (\<lambda>(k, req). (k, fst (req_dropClient client req)))
       (filter (\<lambda>(_, req). \<not> snd (req_dropClient client req)) m)"

definition drop_sticky :: "ClientID \<Rightarrow> (string, stickyRoute) gomap \<Rightarrow> (string, stickyRoute) gomap" where
  "drop_sticky client m =
     filter (\<lambda>(_, s). sDests s \<noteq> [])
       (map (\<lambda>(k, s). (k, s\<lparr>sDests := filter (\<lambda>d. dClient d \<noteq> client) (sDests s)\<rparr>)) m)"

definition DropClient :: "ClientID \<Rightarrow> RequestTracker \<Rightarrow> RequestTracker" where
  "DropClient client rt =
     (case dropQueueClient client (whois rt) of (whois1, o1) \<Rightarrow>
      case dropQueueClient client (stats rt) of (stats1, o2) \<Rightarrow>
      case dropQueueClient client (rmode rt) of (mode1, o3) \<Rightarrow>
      case dropQueueClient client (topic rt) of (topic1, o4) \<Rightarrow>
      case dropQueueClient client (names rt) of (names1, o5) \<Rightarrow>
      case drop_serial client (serial rt) of (serial1, o6) \<Rightarrow>
        rt\<lparr>labeled := drop_keyed client (labeled rt), whox := drop_keyed client (whox rt),
           whois := whois1, stats := stats1, rmode := mode1, topic := topic1, names := names1,
           serial := serial1, sticky := drop_sticky client (sticky rt),
           ready := ready rt @ o1 @ o2 @ o3 @ o4 @ o5 @ o6\<rparr>)"

definition TakeReady :: "RequestTracker \<Rightarrow> RequestTracker \<times> message list" where
  "TakeReady rt = (rt\<lparr>ready := []\<rparr>, ready rt)"

fun active_scan :: "queues \<Rightarrow> string list \<Rightarrow> ClientID option" where
  "active_scan qs [] = None"
| "active_scan qs (kind # kinds) =
     (case map_get [] qs kind of [] \<Rightarrow> active_scan qs kinds | req # _ \<Rightarrow> Some (Client req))"

definition ActiveClient :: "RequestTracker \<Rightarrow> ClientID option" where
  "ActiveClient rt = active_scan (serial rt) serialKindOrder"

section \<open>Begin\<close>

record BeginOpts =
  oClient :: ClientID
  oCmd :: string
  oClientLabel :: string
  oPreferLabel :: bool
  oPreferWHOX :: bool
  oWhoisTargets :: "string list"
  oCaseMapping :: CaseMapping
  oWHOMask :: string
  oStatsLetter :: string
  oEnquiryTarget :: string
  oModeLetters :: string
  oWHOXFlags :: string
  oWHOXFields :: string
  oWHOXClientToken :: string
  oRemote :: string
  oOutbound :: message

text \<open>The results of \<open>Begin\<close>: label, WHOX token, \<open>writeNow\<close>, and the nicks that need a WHOIS line.\<close>

record BeginResult =
  bLabel :: string
  bToken :: string
  bWriteNow :: bool
  bWhoisWire :: "string list"

definition begin_result :: "bool \<Rightarrow> BeginResult" where
  "begin_result writeNow = \<lparr>bLabel = [], bToken = [], bWriteNow = writeNow, bWhoisWire = []\<rparr>"

definition new_request :: "int \<Rightarrow> BeginOpts \<Rightarrow> RequestTracker \<Rightarrow> pendingRequest" where
  "new_request now opts rt =
     \<lparr>Client = oClient opts, ClientLabel = oClientLabel opts, rCommand = oCmd opts, Label = [],
      Target = oEnquiryTarget opts, WHOXToken = [], WHOXStripToken = False,
      WHOXClientToken = oWHOXClientToken opts, EndCodes = endCodesFor (oCmd opts) (ircd rt),
      ReplyCodes = replyCodesFor (oCmd opts) (ircd rt), Created = now, Outbound = oOutbound opts,
      HoldWrite = False, extra = [], ModeLetters = [], WHOXFlags = oWHOXFlags opts,
      WHOXFields = oWHOXFields opts, Remote = oRemote opts\<rparr>"

fun findRemoteMatch :: "pendingRequest list \<Rightarrow> string \<Rightarrow> nat option" where
  "findRemoteMatch [] remote = None"
| "findRemoteMatch (req # q) remote =
     (if Remote req = remote then Some 0 else map_option Suc (findRemoteMatch q remote))"

definition serialHasOtherRemote :: "pendingRequest list \<Rightarrow> string \<Rightarrow> bool" where
  "serialHasOtherRemote q remote = list_ex (\<lambda>req. Remote req \<noteq> remote) q"

text \<open>
  The common shape of an enquiry with a key (WHOIS, STATS, NAMES): coalesce onto a waiting request of
  the same local or remote form, wait behind one of another form, or start a queue. The result says
  whether the request is written at once.
\<close>

definition begin_keyed :: "string \<Rightarrow> pendingRequest \<Rightarrow> queues \<Rightarrow> queues \<times> bool" where
  "begin_keyed key req qs =
     (let q = map_get [] qs key
      in if q \<noteq> []
         then (case findRemoteMatch q (Remote req) of
                 Some i \<Rightarrow> (map_put key (q[i := coalesce (q ! i) req]) qs, False)
               | None \<Rightarrow> (map_put key (q @ [req\<lparr>HoldWrite := True\<rparr>]) qs, False))
         else (map_put key [req] qs, True))"

definition whois_request :: "int \<Rightarrow> BeginOpts \<Rightarrow> string \<Rightarrow> RequestTracker \<Rightarrow> pendingRequest" where
  "whois_request now opts wire rt =
     \<lparr>Client = oClient opts, ClientLabel = oClientLabel opts, rCommand = ''WHOIS'', Label = [],
      Target = Canonical (oCaseMapping opts) wire, WHOXToken = [], WHOXStripToken = False,
      WHOXClientToken = [], EndCodes = endCodesFor ''WHOIS'' (ircd rt), ReplyCodes = [], Created = now,
      Outbound = whoisOutbound wire (oRemote opts), HoldWrite = False, extra = [], ModeLetters = [],
      WHOXFlags = [], WHOXFields = [], Remote = oRemote opts\<rparr>"

fun begin_whois :: "int \<Rightarrow> BeginOpts \<Rightarrow> string list \<Rightarrow> RequestTracker \<Rightarrow> RequestTracker \<times> string list" where
  "begin_whois now opts [] rt = (rt, [])"
| "begin_whois now opts (wire # wires) rt =
     (if wire = [] then begin_whois now opts wires rt
      else case begin_keyed (Canonical (oCaseMapping opts) wire) (whois_request now opts wire rt) (whois rt) of
             (qs, written) \<Rightarrow>
               (case begin_whois now opts wires (rt\<lparr>whois := qs\<rparr>) of
                  (rt1, need) \<Rightarrow> (rt1, if written then wire # need else need)))"

definition whox_match :: "pendingRequest \<Rightarrow> pendingRequest \<Rightarrow> bool" where
  "whox_match req existing \<longleftrightarrow> Target existing = Target req \<and> WHOXFlags existing = WHOXFlags req \<and>
     whoxFieldsKey (WHOXFields existing) = whoxFieldsKey (WHOXFields req)"

definition findMatchingWHOX :: "pendingRequest \<Rightarrow> RequestTracker \<Rightarrow> (string \<times> pendingRequest) option" where
  "findMatchingWHOX req rt = find (\<lambda>(_, existing). whox_match req existing) (whox rt)"

text \<open>\<open>strconv.FormatUint\<close> in base ten.\<close>

function format_uint :: "nat \<Rightarrow> string" where
  "format_uint n = (if n < 10 then [char_of (48 + n)] else format_uint (n div 10) @ [char_of (48 + n mod 10)])"
  by auto
termination by (relation "measure id") auto

declare format_uint.simps [simp del]

definition begin_label :: "pendingRequest \<Rightarrow> RequestTracker \<Rightarrow> RequestTracker \<times> BeginResult" where
  "begin_label req rt =
     (let lbl = nextLbl rt + 1; label = formatID ''L'' (unat lbl)
      in (rt\<lparr>nextLbl := lbl, labeled := map_put label (req\<lparr>Label := label\<rparr>) (labeled rt)\<rparr>,
          (begin_result True)\<lparr>bLabel := label\<rparr>))"

definition next_token :: "64 word \<Rightarrow> 64 word" where
  "next_token t = (let t1 = t + 1 in if t1 > 999 then 1 else t1)"

definition begin_whox :: "pendingRequest \<Rightarrow> RequestTracker \<Rightarrow> RequestTracker \<times> BeginResult" where
  "begin_whox req rt =
     (case findMatchingWHOX req rt of
        Some (tok, existing) \<Rightarrow> (rt\<lparr>whox := map_put tok (coalesce existing req) (whox rt)\<rparr>, begin_result False)
      | None \<Rightarrow>
          let t = next_token (nextTok rt); token = format_uint (unat t)
          in (rt\<lparr>nextTok := t, whox := map_put token (req\<lparr>WHOXToken := token\<rparr>) (whox rt)\<rparr>,
              (begin_result True)\<lparr>bToken := token\<rparr>))"

definition begin_mode :: "BeginOpts \<Rightarrow> pendingRequest \<Rightarrow> RequestTracker \<Rightarrow> RequestTracker \<times> BeginResult" where
  "begin_mode opts req rt =
     (let letters = normalizeModeListLetters (oModeLetters opts);
          req1 = req\<lparr>ModeLetters := letters\<rparr>;
          key = modeMapKey (oEnquiryTarget opts) letters
      in case map_get [] (rmode rt) key of
           head # q \<Rightarrow> (rt\<lparr>rmode := map_put key (coalesce head req1 # q) (rmode rt)\<rparr>, begin_result False)
         | [] \<Rightarrow> (rt\<lparr>rmode := map_put key [req1] (rmode rt)\<rparr>, begin_result True))"

definition begin_serial :: "BeginOpts \<Rightarrow> pendingRequest \<Rightarrow> RequestTracker \<Rightarrow> RequestTracker \<times> BeginResult" where
  "begin_serial opts req rt =
     (let cmd = oCmd opts; q = map_get [] (serial rt) cmd;
          hold = (length q > 0 \<and> (holdWrite cmd \<or> (takesServerTarget cmd \<and> serialHasOtherRemote q (oRemote opts))))
      in (rt\<lparr>serial := map_put cmd (q @ [req\<lparr>HoldWrite := hold\<rparr>]) (serial rt)\<rparr>, begin_result (\<not> hold)))"

definition Begin :: "int \<Rightarrow> BeginOpts \<Rightarrow> RequestTracker \<Rightarrow> RequestTracker \<times> BeginResult" where
  "Begin now opts rt0 =
     (let rt = expireLocked now rt0; cmd = oCmd opts; req = new_request now opts rt
      in if oPreferLabel opts then begin_label req rt
         else if oPreferWHOX opts \<and> (cmd = ''WHO'' \<or> cmd = ''WHOX'')
         then begin_whox (req\<lparr>Target := oWHOMask opts\<rparr>) rt
         else if cmd = ''WHOIS'' \<and> oWhoisTargets opts \<noteq> []
         then (case begin_whois now opts (oWhoisTargets opts) rt of
                 (rt1, need) \<Rightarrow> (rt1, (begin_result (length need > 0))\<lparr>bWhoisWire := need\<rparr>))
         else if cmd = ''STATS'' \<and> oStatsLetter opts \<noteq> []
         then (case begin_keyed (oStatsLetter opts) (req\<lparr>Target := oStatsLetter opts\<rparr>) (stats rt) of
                 (qs, written) \<Rightarrow> (rt\<lparr>stats := qs\<rparr>, begin_result written))
         else if cmd = ''TOPIC'' \<and> oEnquiryTarget opts \<noteq> []
         then (rt\<lparr>topic := map_put (oEnquiryTarget opts)
                              (map_get [] (topic rt) (oEnquiryTarget opts) @ [req]) (topic rt)\<rparr>, begin_result True)
         else if cmd = ''MODE'' \<and> oEnquiryTarget opts \<noteq> [] then begin_mode opts req rt
         else if cmd = ''NAMES'' \<and> oEnquiryTarget opts \<noteq> []
         then (case begin_keyed (oEnquiryTarget opts) req (names rt) of
                 (qs, written) \<Rightarrow> (rt\<lparr>names := qs\<rparr>, begin_result written))
         else begin_serial opts req rt)"

definition SetWHOXClientFix :: "string \<Rightarrow> bool \<Rightarrow> string \<Rightarrow> RequestTracker \<Rightarrow> RequestTracker" where
  "SetWHOXClientFix uplinkToken injectT clientToken rt =
     (case map_of (whox rt) uplinkToken of
        None \<Rightarrow> rt
      | Some req \<Rightarrow>
          let r1 = req\<lparr>WHOXStripToken := injectT\<rparr>;
              r2 = (if \<not> injectT then r1\<lparr>WHOXClientToken := clientToken\<rparr> else r1);
              r3 = r2\<lparr>extra := map (fixWHOXRewrite (WHOXStripToken r2)) (extra r2)\<rparr>
          in rt\<lparr>whox := map_put uplinkToken r3 (whox rt)\<rparr>)"

section \<open>Routing\<close>

text \<open>
  \<open>routeLocked\<close> is a sequence of attempts; an attempt that does not apply falls through with the state
  unchanged, one that applies ends the search.
\<close>

type_synonym route_result = "(RequestTracker \<times> RouteDest list) option"

definition put_sticky :: "int \<Rightarrow> string \<Rightarrow> RouteDest list \<Rightarrow> RequestTracker \<Rightarrow> RequestTracker" where
  "put_sticky now target dests rt =
     rt\<lparr>sticky := map_put target \<lparr>sDests = dests, sCode = ''329'', sCreated = now\<rparr> (sticky rt)\<rparr>"

definition route_label :: "int \<Rightarrow> message \<Rightarrow> CaseMapping \<Rightarrow> RequestTracker \<Rightarrow> route_result" where
  "route_label now msg cm rt =
     (case map_of (Tags msg) ''label'' of
        None \<Rightarrow> None
      | Some lbl \<Rightarrow>
          if lbl = [] then None
          else (case map_of (labeled rt) lbl of
                  None \<Rightarrow> None
                | Some req \<Rightarrow>
                    if Command msg \<in> set (EndCodes req)
                    then let target = (if Target req = [] \<and> length (Params msg) > 1
                                       then Canonical cm (Params msg ! 1) else Target req);
                             rt1 = (if rCommand req = ''MODE'' \<and> Command msg = ''324'' \<and> ''329'' \<in> set (ReplyCodes req) \<and>
                                       target \<noteq> []
                                    then put_sticky now target (destsOf req) rt else rt)
                         in Some (rt1\<lparr>labeled := map_del lbl (labeled rt1)\<rparr>, destsOf req)
                    else Some (rt, destsOf req)))"

definition route_sticky :: "message \<Rightarrow> CaseMapping \<Rightarrow> RequestTracker \<Rightarrow> route_result" where
  "route_sticky msg cm rt =
     (if Command msg = ''329'' \<and> length (Params msg) > 1
      then let target = Canonical cm (Params msg ! 1)
           in (case map_of (sticky rt) target of
                 Some s \<Rightarrow> if sCode s = ''329''
                           then Some (rt\<lparr>sticky := map_del target (sticky rt)\<rparr>, sDests s) else None
               | None \<Rightarrow> None)
      else None)"

text \<open>The scans that look for the oldest request among those that satisfy a condition.\<close>

fun oldest_key :: "(string \<Rightarrow> pendingRequest \<Rightarrow> bool) \<Rightarrow> queues \<Rightarrow> (string \<times> int) option \<Rightarrow> (string \<times> int) option" where
  "oldest_key ok [] best = best"
| "oldest_key ok ((k, q) # qs) best =
     oldest_key ok qs
       (case q of
          [] \<Rightarrow> best
        | req # _ \<Rightarrow>
            if ok k req \<and> (case best of None \<Rightarrow> True | Some (_, t) \<Rightarrow> Created req < t)
            then Some (k, Created req) else best)"

definition findModeWaiters :: "string \<Rightarrow> string \<Rightarrow> RequestTracker \<Rightarrow> string option" where
  "findModeWaiters target letter rt =
     (let exact = modeMapKey target letter
      in if map_get [] (rmode rt) exact \<noteq> [] then Some exact
         else case (if letter \<noteq> []
                    then oldest_key (\<lambda>k _. modeKeyTarget k = target \<and> contains (modeKeyLetters k) letter) (rmode rt) None
                    else None) of
                Some (k, _) \<Rightarrow> Some k
              | None \<Rightarrow> map_option fst (oldest_key (\<lambda>k _. modeKeyTarget k = target) (rmode rt) None))"

definition mode_error_hits :: "string \<Rightarrow> string \<Rightarrow> string \<times> pendingRequest list \<Rightarrow> bool" where
  "mode_error_hits target cmd e =
     (case e of (k, q) \<Rightarrow> modeKeyTarget k = target \<and> q \<noteq> [] \<and>
        \<not> (ReplyCodes (hd q) \<noteq> [] \<and> cmd \<notin> set (ReplyCodes (hd q))))"

definition popAllModeTarget :: "string \<Rightarrow> string \<Rightarrow> RequestTracker \<Rightarrow> RequestTracker \<times> RouteDest list" where
  "popAllModeTarget target cmd rt =
     (rt\<lparr>rmode := filter (\<lambda>e. \<not> mode_error_hits target cmd e) (rmode rt)\<rparr>,
      concat (map (\<lambda>(_, q). destsOf (hd q)) (filter (mode_error_hits target cmd) (rmode rt))))"

definition some_dests :: "RequestTracker \<times> RouteDest list \<Rightarrow> route_result" where
  "some_dests r = (if snd r = [] then None else Some r)"

text \<open>The follow-up 329 to a channel's 324 goes to the same destinations.\<close>

definition remember_329 :: "int \<Rightarrow> string \<Rightarrow> string \<Rightarrow> pendingRequest \<Rightarrow> RequestTracker \<Rightarrow> RequestTracker" where
  "remember_329 now target cmd req rt =
     (if rCommand req = ''MODE'' \<and> cmd = ''324'' \<and> ''329'' \<in> set (ReplyCodes req)
      then put_sticky now target (destsOf req) rt else rt)"

definition mode_pop :: "string \<Rightarrow> pendingRequest list \<Rightarrow> RequestTracker \<Rightarrow> RequestTracker" where
  "mode_pop key rest rt =
     rt\<lparr>rmode := (if rest = [] then map_del key (rmode rt) else map_put key rest (rmode rt))\<rparr>"

definition mode_reply :: "int \<Rightarrow> string \<Rightarrow> string \<Rightarrow> string \<Rightarrow> RequestTracker \<Rightarrow> route_result" where
  "mode_reply now target cmd key rt =
     (case map_get [] (rmode rt) key of
        [] \<Rightarrow> None
      | req # rest \<Rightarrow>
          if ReplyCodes req \<noteq> [] \<and> cmd \<notin> set (ReplyCodes req) then None
          else if cmd \<in> set (EndCodes req)
          then Some (mode_pop key rest (remember_329 now target cmd req rt), destsOf req)
          else Some (rt, destsOf req))"

definition routeModeLocked :: "int \<Rightarrow> message \<Rightarrow> CaseMapping \<Rightarrow> RequestTracker \<Rightarrow> route_result" where
  "routeModeLocked now msg cm rt =
     (let target = modeEnquiryNumericTarget msg cm; cmd = Command msg
      in if target = [] then None
         else if isModeEnquiryError cmd then some_dests (popAllModeTarget target cmd rt)
         else (case modeNumericLetter cmd of
                 None \<Rightarrow> None
               | Some letter \<Rightarrow>
                   (case findModeWaiters target letter rt of
                      None \<Rightarrow> None
                    | Some key \<Rightarrow> mode_reply now target cmd key rt)))"

text \<open>\<open>routeTargetQueue\<close>: the destinations, the queues and the lines released.\<close>

definition routeTargetQueue :: "string \<Rightarrow> string \<Rightarrow> queues \<Rightarrow> (queues \<times> message list \<times> RouteDest list) option" where
  "routeTargetQueue target cmd qs =
     (case map_get [] qs target of
        [] \<Rightarrow> None
      | req # _ \<Rightarrow>
          if ReplyCodes req \<noteq> [] \<and> cmd \<notin> set (ReplyCodes req) then None
          else if cmd \<in> set (EndCodes req)
          then (case popWaiters target qs of (qs1, out) \<Rightarrow> Some (qs1, out, destsOf req))
          else Some (qs, [], destsOf req))"

definition route_topic :: "message \<Rightarrow> CaseMapping \<Rightarrow> RequestTracker \<Rightarrow> route_result" where
  "route_topic msg cm rt =
     (let target = topicEnquiryNumericTarget msg cm
      in if target = [] then None
         else map_option (\<lambda>(qs, out, dests). (rt\<lparr>topic := qs, ready := ready rt @ out\<rparr>, dests))
                (routeTargetQueue target (Command msg) (topic rt)))"

definition route_names :: "message \<Rightarrow> CaseMapping \<Rightarrow> RequestTracker \<Rightarrow> route_result" where
  "route_names msg cm rt =
     (let target = namesNumericTarget msg cm
      in if target = [] then None
         else map_option (\<lambda>(qs, out, dests). (rt\<lparr>names := qs, ready := ready rt @ out\<rparr>, dests))
                (routeTargetQueue target (Command msg) (names rt)))"

definition route_whois :: "message \<Rightarrow> CaseMapping \<Rightarrow> RequestTracker \<Rightarrow> route_result" where
  "route_whois msg cm rt =
     (if IsWHOISReply (Command msg) (ircd rt) \<and> length (Params msg) > 1
      then let nick = Canonical cm (Params msg ! 1)
           in (case map_get [] (whois rt) nick of
                 [] \<Rightarrow> None
               | req # _ \<Rightarrow>
                   if Command msg \<in> set (EndCodes req)
                   then (case popWaiters nick (whois rt) of
                           (qs, out) \<Rightarrow> Some (rt\<lparr>whois := qs, ready := ready rt @ out\<rparr>, destsOf req))
                   else Some (rt, destsOf req))
      else None)"

definition stats_pop :: "string \<Rightarrow> pendingRequest \<Rightarrow> RequestTracker \<Rightarrow> route_result" where
  "stats_pop letter req rt =
     (case popWaiters letter (stats rt) of
        (qs, out) \<Rightarrow> Some (rt\<lparr>stats := qs, ready := ready rt @ out\<rparr>, destsOf req))"

definition route_stats402 :: "message \<Rightarrow> RequestTracker \<Rightarrow> route_result" where
  "route_stats402 msg rt =
     (if Command msg = ''402'' \<and> length (Params msg) > 1
      then let remote = foldServer (Params msg ! 1)
           in (case find (\<lambda>(_, q). q \<noteq> [] \<and> Remote (hd q) \<noteq> [] \<and> Remote (hd q) = remote) (stats rt) of
                 None \<Rightarrow> None
               | Some (letter, q) \<Rightarrow> stats_pop letter (hd q) rt)
      else None)"

definition route_stats219 :: "message \<Rightarrow> RequestTracker \<Rightarrow> route_result" where
  "route_stats219 msg rt =
     (if Command msg = ''219'' \<and> length (Params msg) > 1
      then let letter = foldStatsLetter (Params msg ! 1)
           in (case map_get [] (stats rt) letter of [] \<Rightarrow> None | req # _ \<Rightarrow> stats_pop letter req rt)
      else None)"

definition singleStatsPending :: "RequestTracker \<Rightarrow> pendingRequest option" where
  "singleStatsPending rt =
     (case filter (\<lambda>(_, q). q \<noteq> []) (stats rt) of [(_, q)] \<Rightarrow> Some (hd q) | _ \<Rightarrow> None)"

definition route_stats_body :: "message \<Rightarrow> RequestTracker \<Rightarrow> route_result" where
  "route_stats_body msg rt =
     (if isSTATSNumeric (Command msg) \<and> Command msg \<noteq> ''219''
      then map_option (\<lambda>req. (rt, destsOf req)) (singleStatsPending rt) else None)"

definition whoxQuirkyIRCd :: "RequestTracker \<Rightarrow> bool" where
  "whoxQuirkyIRCd rt \<longleftrightarrow> ircd rt = IRCdIrcu \<or> ircd rt = IRCdSnircd"

definition route_whox354 :: "message \<Rightarrow> RequestTracker \<Rightarrow> route_result" where
  "route_whox354 msg rt =
     (if Command msg = ''354'' \<and> length (Params msg) > 1
      then let tok = Params msg ! 1
           in (case map_of (whox rt) tok of
                 Some req \<Rightarrow> Some (rt, destsOf req)
               | None \<Rightarrow> if tok \<noteq> ''0'' then Some (rt, []) else None)
      else None)"

fun oldest_whox :: "(pendingRequest \<Rightarrow> bool) \<Rightarrow> (string, pendingRequest) gomap \<Rightarrow>
    (string \<times> pendingRequest) option \<Rightarrow> (string \<times> pendingRequest) option" where
  "oldest_whox ok [] best = best"
| "oldest_whox ok ((tok, req) # m) best =
     oldest_whox ok m
       (if ok req \<and> (case best of None \<Rightarrow> True | Some (_, b) \<Rightarrow> Created req < Created b)
        then Some (tok, req) else best)"

definition whoxByMask :: "string \<Rightarrow> RequestTracker \<Rightarrow> (string \<times> pendingRequest) option" where
  "whoxByMask whomask rt =
     (if whomask = [] then None
      else oldest_whox (\<lambda>req. \<not> (Target req = [] \<or> Target req \<noteq> whomask)) (whox rt) None)"

definition end_whox :: "string \<times> pendingRequest \<Rightarrow> RequestTracker \<Rightarrow> RequestTracker \<times> RouteDest list" where
  "end_whox hit rt = (case hit of (tok, req) \<Rightarrow> (rt\<lparr>whox := map_del tok (whox rt)\<rparr>, destsOf req))"

definition route_whox315 :: "message \<Rightarrow> CaseMapping \<Rightarrow> RequestTracker \<Rightarrow> route_result" where
  "route_whox315 msg cm rt =
     (if Command msg = ''315''
      then (case whoxByMask (canonical_param cm msg 1) rt of
              Some hit \<Rightarrow> Some (end_whox hit rt)
            | None \<Rightarrow>
                if whoxQuirkyIRCd rt
                then map_option (\<lambda>hit. end_whox hit rt)
                       (oldest_whox (\<lambda>req. \<not> (rCommand req \<noteq> ''WHO'' \<and> rCommand req \<noteq> ''WHOX'')) (whox rt) None)
                else None)
      else None)"

definition route_whox_single :: "message \<Rightarrow> RequestTracker \<Rightarrow> route_result" where
  "route_whox_single msg rt =
     (if whoxQuirkyIRCd rt \<and> (Command msg = ''354'' \<or> Command msg = ''315'')
      then (case whox rt of
              [(tok, req)] \<Rightarrow> Some (if Command msg = ''315'' then end_whox (tok, req) rt else (rt, destsOf req))
            | _ \<Rightarrow> None)
      else None)"

definition head_takes :: "string \<Rightarrow> pendingRequest \<Rightarrow> bool" where
  "head_takes numeric req \<longleftrightarrow> numeric \<in> set (ReplyCodes req) \<or> (ReplyCodes req = [] \<and> isLikelyReply numeric)"

fun serialHeadFor :: "string \<Rightarrow> queues \<Rightarrow> string list \<Rightarrow> (string \<times> pendingRequest) option" where
  "serialHeadFor numeric qs [] = None"
| "serialHeadFor numeric qs (kind # kinds) =
     (case map_get [] qs kind of
        [] \<Rightarrow> serialHeadFor numeric qs kinds
      | req # _ \<Rightarrow> if head_takes numeric req then Some (kind, req) else serialHeadFor numeric qs kinds)"

definition route_serial :: "message \<Rightarrow> RequestTracker \<Rightarrow> route_result" where
  "route_serial msg rt =
     (case serialHeadFor (Command msg) (serial rt) serialKindOrder of
        None \<Rightarrow> None
      | Some (kind, req) \<Rightarrow>
          if Command msg \<in> set (EndCodes req)
          then (case popWaiters kind (serial rt) of
                  (qs, out) \<Rightarrow> Some (rt\<lparr>serial := qs, ready := ready rt @ out\<rparr>, destsOf req))
          else Some (rt, destsOf req))"

fun first_route :: "(RequestTracker \<Rightarrow> route_result) list \<Rightarrow> RequestTracker \<Rightarrow> RequestTracker \<times> RouteDest list" where
  "first_route [] rt = (rt, [])"
| "first_route (f # fs) rt = (case f rt of Some r \<Rightarrow> r | None \<Rightarrow> first_route fs rt)"

definition route_attempts :: "int \<Rightarrow> message \<Rightarrow> CaseMapping \<Rightarrow> (RequestTracker \<Rightarrow> route_result) list" where
  "route_attempts now msg cm =
     [route_label now msg cm, route_sticky msg cm, routeModeLocked now msg cm, route_topic msg cm,
      route_names msg cm, route_whois msg cm, route_stats402 msg, route_stats219 msg, route_stats_body msg,
      route_whox354 msg, route_whox315 msg cm, route_whox_single msg, route_serial msg]"

definition routeLocked :: "int \<Rightarrow> message \<Rightarrow> CaseMapping \<Rightarrow> RequestTracker \<Rightarrow> RequestTracker \<times> RouteDest list" where
  "routeLocked now msg cm rt = first_route (route_attempts now msg cm) (expireLocked now rt)"

end
