(* ===== verification/Tracker_Props.thy ===== *)
theory Tracker_Props
  imports Session_Tracker
begin

text \<open>
  What the request tracker guarantees. Two groups of lemmas carry the properties: the locale
  \<open>request_pred\<close> shows once, for any predicate on requests that does not look at the hold flag, that
  routing and expiry keep it on every pending request and that destinations come from requests that
  have it; the discipline of the queues (the head has been written, the others wait) is shown for
  every operation on a queue.
\<close>

section \<open>Predicates on all requests\<close>

definition queues_all :: "(pendingRequest \<Rightarrow> bool) \<Rightarrow> queues \<Rightarrow> bool" where
  "queues_all P qs = list_all (\<lambda>(_, q). list_all P q) qs"

definition keyed_all :: "(pendingRequest \<Rightarrow> bool) \<Rightarrow> (string, pendingRequest) gomap \<Rightarrow> bool" where
  "keyed_all P m = list_all (\<lambda>(_, r). P r) m"

definition sticky_all :: "(RouteDest \<Rightarrow> bool) \<Rightarrow> (string, stickyRoute) gomap \<Rightarrow> bool" where
  "sticky_all D m = list_all (\<lambda>(_, s). list_all D (sDests s)) m"

text \<open>\<open>S\<close> is the predicate on the requests of the serialised queues, \<open>P\<close> the one on all others.\<close>

definition all_reqs :: "(pendingRequest \<Rightarrow> bool) \<Rightarrow> (pendingRequest \<Rightarrow> bool) \<Rightarrow> (RouteDest \<Rightarrow> bool) \<Rightarrow>
    RequestTracker \<Rightarrow> bool" where
  "all_reqs P S D rt \<longleftrightarrow>
     keyed_all P (labeled rt) \<and> keyed_all P (whox rt) \<and> queues_all P (whois rt) \<and> queues_all P (stats rt) \<and>
     queues_all P (rmode rt) \<and> queues_all P (topic rt) \<and> queues_all P (names rt) \<and> queues_all S (serial rt) \<and>
     sticky_all D (sticky rt)"

lemma queues_all_get: "queues_all P qs \<Longrightarrow> list_all P (map_get [] qs k)"
  unfolding queues_all_def map_get_def by (auto split: option.splits dest: list_all_get)

lemma queues_all_put: "queues_all P qs \<Longrightarrow> list_all P q \<Longrightarrow> queues_all P (map_put k q qs)"
  by (simp add: queues_all_def list_all_put)

lemma queues_all_del: "queues_all P qs \<Longrightarrow> queues_all P (map_del k qs)"
  by (simp add: queues_all_def list_all_del)

lemma keyed_all_get: "keyed_all P m \<Longrightarrow> map_of m k = Some r \<Longrightarrow> P r"
  by (auto simp: keyed_all_def dest: list_all_get)

lemma keyed_all_put: "keyed_all P m \<Longrightarrow> P r \<Longrightarrow> keyed_all P (map_put k r m)"
  by (simp add: keyed_all_def list_all_put)

lemma keyed_all_del: "keyed_all P m \<Longrightarrow> keyed_all P (map_del k m)"
  by (simp add: keyed_all_def list_all_del)

lemma keyed_all_filter: "keyed_all P m \<Longrightarrow> keyed_all P (filter f m)"
  by (auto simp: keyed_all_def list_all_iff)

lemma queues_all_filter: "queues_all P qs \<Longrightarrow> queues_all P (filter f qs)"
  by (auto simp: queues_all_def list_all_iff)

lemma sticky_all_filter: "sticky_all D m \<Longrightarrow> sticky_all D (filter f m)"
  by (auto simp: sticky_all_def list_all_iff)

lemma sticky_all_put: "sticky_all D m \<Longrightarrow> list_all D (sDests s) \<Longrightarrow> sticky_all D (map_put k s m)"
  by (simp add: sticky_all_def list_all_put)

lemma sticky_all_del: "sticky_all D m \<Longrightarrow> sticky_all D (map_del k m)"
  by (simp add: sticky_all_def list_all_del)

lemma sticky_all_get: "sticky_all D m \<Longrightarrow> map_of m k = Some s \<Longrightarrow> list_all D (sDests s)"
  by (auto simp: sticky_all_def dest: list_all_get)

lemmas all_intros = queues_all_put queues_all_del queues_all_filter keyed_all_put keyed_all_del
  keyed_all_filter sticky_all_put sticky_all_del sticky_all_filter

lemma list_all_filter: "list_all P q \<Longrightarrow> list_all P (filter f q)"
  by (auto simp: list_all_iff)

lemma oldest_whox_mem:
  "oldest_whox ok m best = Some hit \<Longrightarrow> hit \<in> set m \<or> best = Some hit"
proof (induction m arbitrary: best)
  case Nil
  then show ?case by simp
next
  case (Cons e m)
  obtain tok req where "e = (tok, req)" by (cases e)
  then show ?case using Cons.prems Cons.IH by (fastforce split: if_splits)
qed

definition hold_blind :: "(pendingRequest \<Rightarrow> bool) \<Rightarrow> bool" where
  "hold_blind P \<longleftrightarrow> (\<forall>r b. P r \<longrightarrow> P (r\<lparr>HoldWrite := b\<rparr>))"

lemma enqueue_all: "hold_blind P \<Longrightarrow> list_all P q \<Longrightarrow> enqueueHeldWrite q = (q', out) \<Longrightarrow> list_all P q'"
  by (auto simp: enqueueHeldWrite_def hold_blind_def split: list.splits if_splits)

lemma pop_all: "hold_blind P \<Longrightarrow> queues_all P qs \<Longrightarrow> popWaiters k qs = (qs', out) \<Longrightarrow> queues_all P qs'"
  using queues_all_get [of P qs k]
  by (auto simp: popWaiters_def split: list.splits if_splits prod.splits intro!: all_intros intro: enqueue_all)

lemma expire_queue_all:
  "hold_blind P \<Longrightarrow> queues_all P qs \<Longrightarrow> expireQueue now qs = (qs', out) \<Longrightarrow> queues_all P qs'"
proof (induction now qs arbitrary: qs' out rule: expireQueue.induct)
  case (1 now)
  then show ?case by simp
next
  case (2 now key q qs)
  obtain qs1 out1 where rec: "expireQueue now qs = (qs1, out1)" by fastforce
  have q: "list_all P q" "queues_all P qs" using "2.prems"(2) by (auto simp: queues_all_def)
  then have "queues_all P qs1" using "2.IH" [OF _ _ "2.prems"(1) _ rec] by blast
  moreover obtain q1 out2 where enq: "enqueueHeldWrite (filter (\<lambda>req. \<not> stale now req) q) = (q1, out2)" by fastforce
  moreover have "list_all P q1" using enqueue_all [OF "2.prems"(1) list_all_filter [OF q(1)] enq] .
  ultimately show ?case
    using "2.prems"(3) q list_all_filter [OF q(1)] by (auto simp: rec Let_def queues_all_def split: if_splits)
qed

locale request_pred =
  fixes P S :: "pendingRequest \<Rightarrow> bool"
    and D :: "RouteDest \<Rightarrow> bool"
  assumes hold: "hold_blind P" "hold_blind S"
    and dests: "P r \<Longrightarrow> list_all D (destsOf r)"
    and serial_dests: "S r \<Longrightarrow> list_all D (destsOf r)"
begin

lemma expire_all: "all_reqs P S D rt \<Longrightarrow> all_reqs P S D (expireLocked now rt)"
  unfolding all_reqs_def expireLocked_def
  by (auto split: prod.splits intro: expire_queue_all hold all_intros)

definition attempt_ok :: "(RequestTracker \<Rightarrow> route_result) \<Rightarrow> bool" where
  "attempt_ok f \<longleftrightarrow> (\<forall>rt rt' ds. all_reqs P S D rt \<longrightarrow> f rt = Some (rt', ds) \<longrightarrow> all_reqs P S D rt' \<and> list_all D ds)"

lemma target_queue_all:
  "queues_all P qs \<Longrightarrow> routeTargetQueue t cmd qs = Some (qs', out, ds) \<Longrightarrow> queues_all P qs' \<and> list_all D ds"
  using queues_all_get [of P qs t]
  by (auto simp: routeTargetQueue_def split: list.splits if_splits prod.splits intro: pop_all hold dests)

lemma put_sticky_all: "all_reqs P S D rt \<Longrightarrow> list_all D ds \<Longrightarrow> all_reqs P S D (put_sticky now t ds rt)"
  by (auto simp: put_sticky_def all_reqs_def intro: all_intros)

lemma route_label_ok: "attempt_ok (route_label now msg cm)"
  unfolding attempt_ok_def
proof (intro allI impI)
  fix rt rt' ds
  assume ok: "all_reqs P S D rt" and r: "route_label now msg cm rt = Some (rt', ds)"
  obtain lbl req where req: "map_of (labeled rt) lbl = Some req" and ds: "ds = destsOf req"
    and rt': "rt' = rt \<or> (\<exists>rt1. (rt1 = rt \<or> (\<exists>t. rt1 = put_sticky now t (destsOf req) rt)) \<and>
                rt' = rt1\<lparr>labeled := map_del lbl (labeled rt1)\<rparr>)"
    using r by (auto simp: route_label_def Let_def split: option.splits if_splits)
  have "P req" using keyed_all_get [of P, OF _ req] ok by (simp add: all_reqs_def)
  then have d: "list_all D (destsOf req)" by (rule dests)
  have "all_reqs P S D rt1 \<Longrightarrow> all_reqs P S D (rt1\<lparr>labeled := map_del lbl (labeled rt1)\<rparr>)" for rt1
    by (auto simp: all_reqs_def intro: all_intros)
  then show "all_reqs P S D rt' \<and> list_all D ds" using rt' ok d ds put_sticky_all by auto
qed

lemma route_sticky_ok: "attempt_ok (route_sticky msg cm)"
  by (auto simp: attempt_ok_def route_sticky_def all_reqs_def Let_def intro: all_intros
      split: option.splits if_splits dest: sticky_all_get)

lemma mode_error_ok:
  "all_reqs P S D rt \<Longrightarrow> popAllModeTarget t cmd rt = (rt', ds) \<Longrightarrow> all_reqs P S D rt' \<and> list_all D ds"
proof -
  assume ok: "all_reqs P S D rt" and pop: "popAllModeTarget t cmd rt = (rt', ds)"
  have "list_all D (destsOf (hd q))" if "(k, q) \<in> set (rmode rt)" "q \<noteq> []" for k q
  proof -
    have "list_all P q" using ok that(1) by (auto simp: all_reqs_def queues_all_def list_all_iff)
    then show ?thesis using that(2) dests by (cases q) auto
  qed
  then have "list_all D ds"
    using pop by (auto simp: popAllModeTarget_def mode_error_hits_def list_all_iff)
  then show ?thesis using ok pop by (auto simp: popAllModeTarget_def all_reqs_def intro: all_intros)
qed

lemma remember_329_all:
  "all_reqs P S D rt \<Longrightarrow> P req \<Longrightarrow> all_reqs P S D (remember_329 now t cmd req rt)"
  by (simp add: remember_329_def put_sticky_all dests)

lemma mode_pop_all: "all_reqs P S D rt \<Longrightarrow> list_all P rest \<Longrightarrow> all_reqs P S D (mode_pop key rest rt)"
  by (auto simp: all_reqs_def mode_pop_def intro: all_intros)

lemma attempt_okI:
  "(\<And>rt rt' ds. all_reqs P S D rt \<Longrightarrow> f rt = Some (rt', ds) \<Longrightarrow> all_reqs P S D rt' \<and> list_all D ds) \<Longrightarrow> attempt_ok f"
  by (simp add: attempt_ok_def)

lemma attempt_okD:
  "attempt_ok f \<Longrightarrow> all_reqs P S D rt \<Longrightarrow> f rt = Some (rt', ds) \<Longrightarrow> all_reqs P S D rt' \<and> list_all D ds"
  by (simp add: attempt_ok_def)

lemma mode_reply_ok: "attempt_ok (mode_reply now t cmd key)"
proof (rule attempt_okI)
  fix rt rt' ds
  assume ok: "all_reqs P S D rt" and r: "mode_reply now t cmd key rt = Some (rt', ds)"
  then obtain req rest where q: "map_get [] (rmode rt) key = req # rest"
    by (auto simp: mode_reply_def split: list.splits)
  have "P req" "list_all P rest" using queues_all_get [of P "rmode rt" key] ok q by (auto simp: all_reqs_def)
  then show "all_reqs P S D rt' \<and> list_all D ds"
    using r ok q by (auto simp: mode_reply_def mode_pop_all remember_329_all dests split: if_splits)
qed

lemma route_mode_ok: "attempt_ok (routeModeLocked now msg cm)"
proof (rule attempt_okI)
  fix rt rt' ds
  assume ok: "all_reqs P S D rt" and r: "routeModeLocked now msg cm rt = Some (rt', ds)"
  then consider t where "popAllModeTarget t (Command msg) rt = (rt', ds)"
    | t k where "mode_reply now t (Command msg) k rt = Some (rt', ds)"
    by (auto simp: routeModeLocked_def Let_def some_dests_def split: if_splits option.splits)
  then show "all_reqs P S D rt' \<and> list_all D ds"
    by cases (use ok mode_error_ok attempt_okD [OF mode_reply_ok] in blast)+
qed

lemma route_topic_ok: "attempt_ok (route_topic msg cm)" and route_names_ok: "attempt_ok (route_names msg cm)"
  by (auto simp: attempt_ok_def route_topic_def route_names_def all_reqs_def Let_def split: if_splits
      dest: target_queue_all)

lemma stats_pop_ok: "all_reqs P S D rt \<Longrightarrow> P req \<Longrightarrow> stats_pop k req rt = Some (rt', ds) \<Longrightarrow> all_reqs P S D rt' \<and> list_all D ds"
  by (auto simp: stats_pop_def all_reqs_def dests split: prod.splits intro: pop_all hold)

lemma head_ok: "queues_all P' qs \<Longrightarrow> map_get [] qs k = r # q \<Longrightarrow> P' r"
  using queues_all_get [of P' qs k] by simp

lemma route_whois_ok: "attempt_ok (route_whois msg cm)"
proof (rule attempt_okI)
  fix rt rt' ds
  assume ok: "all_reqs P S D rt" and r: "route_whois msg cm rt = Some (rt', ds)"
  let ?k = "Canonical cm (Params msg ! 1)"
  obtain req q where q: "map_get [] (whois rt) ?k = req # q"
    using r by (auto simp: route_whois_def Let_def split: if_splits list.splits)
  have "P req" using head_ok [of P, OF _ q] ok by (simp add: all_reqs_def)
  then show "all_reqs P S D rt' \<and> list_all D ds"
    using r q ok pop_all [OF hold(1), of "whois rt" ?k]
    by (auto simp: route_whois_def Let_def all_reqs_def dests split: if_splits prod.splits)
qed

lemma find_head_ok: "queues_all P qs \<Longrightarrow> find f qs = Some (k, q) \<Longrightarrow> q \<noteq> [] \<Longrightarrow> P (hd q)"
  using find_SomeD [of f qs "(k, q)"] by (auto simp: queues_all_def list_all_iff)

lemma route_stats402_ok: "attempt_ok (route_stats402 msg)"
proof (rule attempt_okI)
  fix rt rt' ds
  assume ok: "all_reqs P S D rt" and r: "route_stats402 msg rt = Some (rt', ds)"
  then obtain k q where f: "find (\<lambda>(_, q). q \<noteq> [] \<and> Remote (hd q) \<noteq> [] \<and>
      Remote (hd q) = foldServer (Params msg ! 1)) (stats rt) = Some (k, q)"
    and pop: "stats_pop k (hd q) rt = Some (rt', ds)"
    by (auto simp: route_stats402_def Let_def split: if_splits option.splits)
  have "P (hd q)" using find_head_ok [OF _ f] find_SomeD [OF f] ok by (simp add: all_reqs_def)
  then show "all_reqs P S D rt' \<and> list_all D ds" using ok pop stats_pop_ok by blast
qed

lemma route_stats219_ok: "attempt_ok (route_stats219 msg)"
proof (rule attempt_okI)
  fix rt rt' ds
  assume ok: "all_reqs P S D rt" and r: "route_stats219 msg rt = Some (rt', ds)"
  then obtain k req q where q: "map_get [] (stats rt) k = req # q" and pop: "stats_pop k req rt = Some (rt', ds)"
    by (auto simp: route_stats219_def Let_def split: if_splits list.splits)
  have "P req" using head_ok [of P, OF _ q] ok by (simp add: all_reqs_def)
  then show "all_reqs P S D rt' \<and> list_all D ds" using ok pop stats_pop_ok by blast
qed

lemma route_stats_body_ok: "attempt_ok (route_stats_body msg)"
proof (rule attempt_okI)
  fix rt rt' ds
  assume ok: "all_reqs P S D rt" and r: "route_stats_body msg rt = Some (rt', ds)"
  then obtain k q where f: "filter (\<lambda>(_, q). q \<noteq> []) (stats rt) = [(k, q)]" and rt': "rt' = rt" "ds = destsOf (hd q)"
    by (auto simp: route_stats_body_def singleStatsPending_def split: if_splits list.splits prod.splits)
  have "(k, q) \<in> set (filter (\<lambda>(_, q). q \<noteq> []) (stats rt))" by (simp add: f)
  then have "P (hd q)" using ok by (auto simp: all_reqs_def queues_all_def list_all_iff)
  then show "all_reqs P S D rt' \<and> list_all D ds" using ok rt' dests by simp
qed

lemma route_whox354_ok: "attempt_ok (route_whox354 msg)"
proof (rule attempt_okI)
  fix rt rt' ds
  assume ok: "all_reqs P S D rt" and r: "route_whox354 msg rt = Some (rt', ds)"
  then show "all_reqs P S D rt' \<and> list_all D ds"
    by (auto simp: route_whox354_def Let_def split: if_splits option.splits)
      (metis all_reqs_def dests keyed_all_get)+
qed

lemma end_whox_ok: "all_reqs P S D rt \<Longrightarrow> hit \<in> set (whox rt) \<Longrightarrow> end_whox hit rt = (rt', ds) \<Longrightarrow>
    all_reqs P S D rt' \<and> list_all D ds"
proof -
  assume ok: "all_reqs P S D rt" and hit: "hit \<in> set (whox rt)" and e: "end_whox hit rt = (rt', ds)"
  have "P (snd hit)" using ok hit by (auto simp: all_reqs_def keyed_all_def list_all_iff)
  then show ?thesis using ok e by (auto simp: end_whox_def all_reqs_def dests keyed_all_del split: prod.splits)
qed

lemma route_whox315_ok: "attempt_ok (route_whox315 msg cm)"
proof (rule attempt_okI)
  fix rt rt' ds
  assume ok: "all_reqs P S D rt" and r: "route_whox315 msg cm rt = Some (rt', ds)"
  then obtain f hit where "oldest_whox f (whox rt) None = Some hit" "end_whox hit rt = (rt', ds)"
    by (auto simp: route_whox315_def whoxByMask_def split: if_splits option.splits)
  then show "all_reqs P S D rt' \<and> list_all D ds" using ok end_whox_ok oldest_whox_mem by blast
qed

lemma route_whox_single_ok: "attempt_ok (route_whox_single msg)"
proof (rule attempt_okI)
  fix rt rt' ds
  assume ok: "all_reqs P S D rt" and r: "route_whox_single msg rt = Some (rt', ds)"
  then obtain tok req where m: "whox rt = [(tok, req)]" and
    rt': "end_whox (tok, req) rt = (rt', ds) \<or> rt' = rt \<and> ds = destsOf req"
    by (auto simp: route_whox_single_def split: if_splits list.splits prod.splits)
  have "P req" using ok m by (simp add: all_reqs_def keyed_all_def)
  then show "all_reqs P S D rt' \<and> list_all D ds" using ok m rt' end_whox_ok dests by auto
qed

lemma serialHeadFor_get: "serialHeadFor n qs kinds = Some (k, req) \<Longrightarrow> \<exists>q. map_get [] qs k = req # q"
  by (induction kinds) (auto split: list.splits if_splits)

lemma route_serial_ok: "attempt_ok (route_serial msg)"
proof (rule attempt_okI)
  fix rt rt' ds
  assume ok: "all_reqs P S D rt" and r: "route_serial msg rt = Some (rt', ds)"
  then obtain k req where k: "serialHeadFor (Command msg) (serial rt) serialKindOrder = Some (k, req)"
    by (auto simp: route_serial_def split: option.splits)
  then have "S req" using serialHeadFor_get head_ok [of S] ok unfolding all_reqs_def by metis
  then show "all_reqs P S D rt' \<and> list_all D ds"
    using r k ok pop_all [OF hold(2), of "serial rt" k]
    by (auto simp: route_serial_def serial_dests all_reqs_def split: if_splits prod.splits)
qed

lemmas attempts_ok = route_label_ok route_sticky_ok route_mode_ok route_topic_ok route_names_ok route_whois_ok
  route_stats402_ok route_stats219_ok route_stats_body_ok route_whox354_ok route_whox315_ok
  route_whox_single_ok route_serial_ok

lemma first_route_ok:
  "list_all attempt_ok fs \<Longrightarrow> all_reqs P S D rt \<Longrightarrow> first_route fs rt = (rt', ds) \<Longrightarrow> all_reqs P S D rt' \<and> list_all D ds"
  by (induction fs) (auto simp: attempt_ok_def split: option.splits)

theorem route_ok:
  assumes "all_reqs P S D rt" and "routeLocked now msg cm rt = (rt', ds)"
  shows "all_reqs P S D rt' \<and> list_all D ds"
  using first_route_ok [of "route_attempts now msg cm" "expireLocked now rt"] assms expire_all attempts_ok
  by (simp add: routeLocked_def route_attempts_def)

end

section \<open>Clients\<close>

definition req_clients :: "pendingRequest \<Rightarrow> ClientID list" where
  "req_clients r = Client r # map wClient (extra r)"

interpretation fresh: request_pred "\<lambda>r. \<not> stale now r" "\<lambda>r. \<not> stale now r" "\<lambda>_. True" for now
  by unfold_locales (auto simp: hold_blind_def stale_def list_all_iff)

lemma req_dropClient_clients:
  assumes "distinct (req_clients r)" and "req_dropClient c r = (r', False)"
  shows "distinct (req_clients r')" and "set (req_clients r') = set (req_clients r) - {c}"
  using assms by (auto simp: req_dropClient_def req_clients_def distinct_map_filter split: if_splits list.splits)

text \<open>No client waits twice on a request, and the clients come from \<open>A\<close>.\<close>

definition req_ok :: "ClientID set \<Rightarrow> pendingRequest \<Rightarrow> bool" where
  "req_ok A r \<longleftrightarrow> distinct (req_clients r) \<and> set (req_clients r) \<subseteq> A"

lemma req_ok_drop:
  "req_ok A r \<Longrightarrow> \<not> snd (req_dropClient c r) \<Longrightarrow> req_ok (A - {c}) (fst (req_dropClient c r))"
  using req_dropClient_clients [of r c "fst (req_dropClient c r)"]
  by (cases "req_dropClient c r") (auto simp: req_ok_def)

lemma req_ok_blind: "hold_blind (req_ok A)"
  by (simp add: hold_blind_def req_ok_def req_clients_def)

lemma drop_waiters_ok: "list_all (req_ok A) q \<Longrightarrow> list_all (req_ok (A - {c})) (drop_waiters c q)"
proof (induction q)
  case Nil
  then show ?case by simp
next
  case (Cons r q)
  then show ?case using req_ok_drop [of A r c] by (auto split: prod.splits bool.splits)
qed

lemma drop_keyed_ok: "keyed_all (req_ok A) m \<Longrightarrow> keyed_all (req_ok (A - {c})) (drop_keyed c m)"
  by (auto simp: keyed_all_def drop_keyed_def list_all_iff intro: req_ok_drop)

lemma dropQueueClient_ok:
  "queues_all (req_ok A) qs \<Longrightarrow> dropQueueClient c qs = (qs', out) \<Longrightarrow> queues_all (req_ok (A - {c})) qs'"
proof (induction c qs arbitrary: qs' out rule: dropQueueClient.induct)
  case (1 c)
  then show ?case by (simp add: queues_all_def)
next
  case (2 c target q qs)
  obtain qs1 out1 where rec: "dropQueueClient c qs = (qs1, out1)" by fastforce
  have q: "list_all (req_ok A) q" "queues_all (req_ok A) qs" using "2.prems"(1) by (auto simp: queues_all_def)
  then have 1: "queues_all (req_ok (A - {c})) qs1" using "2.IH" [OF _ _ _ rec] by blast
  have 2: "list_all (req_ok (A - {c})) (drop_waiters c q)" using drop_waiters_ok q(1) .
  obtain q1 out2 where enq: "enqueueHeldWrite (drop_waiters c q) = (q1, out2)" by fastforce
  have "list_all (req_ok (A - {c})) q1" using enqueue_all [OF req_ok_blind 2 enq] .
  then show ?case using "2.prems"(2) 1 2 enq by (auto simp: rec Let_def queues_all_def split: if_splits)
qed

definition serial_ok :: "ClientID set \<Rightarrow> pendingRequest \<Rightarrow> bool" where
  "serial_ok A r \<longleftrightarrow> extra r = [] \<and> Client r \<in> A"

lemma drop_serial_ok:
  "queues_all (serial_ok A) qs \<Longrightarrow> drop_serial c qs = (qs', out) \<Longrightarrow> queues_all (serial_ok (A - {c})) qs'"
proof (induction c qs arbitrary: qs' out rule: drop_serial.induct)
  case (1 c)
  then show ?case by (simp add: queues_all_def)
next
  case (2 c kind q qs)
  obtain qs1 out1 where rec: "drop_serial c qs = (qs1, out1)" by fastforce
  have q: "list_all (serial_ok A) q" "queues_all (serial_ok A) qs" using "2.prems"(1) by (auto simp: queues_all_def)
  then have 1: "queues_all (serial_ok (A - {c})) qs1" using "2.IH" [OF _ _ _ rec] by blast
  have 2: "list_all (serial_ok (A - {c})) (filter (\<lambda>req. Client req \<noteq> c) q)"
    using q(1) by (auto simp: list_all_iff serial_ok_def)
  obtain q1 out2 where enq: "enqueueHeldWrite (filter (\<lambda>req. Client req \<noteq> c) q) = (q1, out2)" by fastforce
  have "hold_blind (serial_ok (A - {c}))" by (simp add: hold_blind_def serial_ok_def)
  then have "list_all (serial_ok (A - {c})) q1" using enqueue_all 2 enq by blast
  then show ?case using "2.prems"(2) 1 2 enq by (auto simp: rec Let_def queues_all_def split: if_splits)
qed

lemma drop_sticky_ok: "sticky_all (\<lambda>d. dClient d \<in> A) m \<Longrightarrow> sticky_all (\<lambda>d. dClient d \<in> A - {c}) (drop_sticky c m)"
  by (auto simp: sticky_all_def drop_sticky_def list_all_iff)

definition tracker_ok :: "ClientID set \<Rightarrow> RequestTracker \<Rightarrow> bool" where
  "tracker_ok A rt \<longleftrightarrow> all_reqs (req_ok A) (serial_ok A) (\<lambda>d. dClient d \<in> A) rt"

lemma DropClient_ok: "tracker_ok A rt \<Longrightarrow> tracker_ok (A - {c}) (DropClient c rt)"
  unfolding tracker_ok_def all_reqs_def DropClient_def
  using dropQueueClient_ok [where c = c and A = A] drop_keyed_ok [where c = c and A = A]
    drop_serial_ok [where c = c and A = A] drop_sticky_ok [where c = c and A = A]
  by (auto split: prod.splits)

interpretation tk: request_pred "req_ok A" "serial_ok A" "\<lambda>d. dClient d \<in> A" for A
  by unfold_locales
    (auto simp: hold_blind_def req_ok_def serial_ok_def req_clients_def destsOf_def list_all_iff)

lemma tracker_ok_mono: "tracker_ok A rt \<Longrightarrow> A \<subseteq> B \<Longrightarrow> tracker_ok B rt"
proof -
  assume ok: "tracker_ok A rt" and sub: "A \<subseteq> B"
  have "req_ok A r \<Longrightarrow> req_ok B r" "serial_ok A r \<Longrightarrow> serial_ok B r" for r
    using sub by (auto simp: req_ok_def serial_ok_def)
  then show ?thesis
    using ok sub unfolding tracker_ok_def all_reqs_def keyed_all_def queues_all_def sticky_all_def list_all_iff
    by fast
qed

lemma coalesce_ok: "req_ok A r \<Longrightarrow> Client other \<in> A \<Longrightarrow> req_ok A (coalesce r other)"
  by (auto simp: coalesce_def req_ok_def req_clients_def waiter_of_def fixWHOXRewrite_def list_ex_iff)

lemma list_all_update: "list_all P q \<Longrightarrow> P x \<Longrightarrow> list_all P (q[i := x])"
  using set_update_subset_insert [of q i x] by (auto simp: list_all_iff)

lemma findRemoteMatch_less: "findRemoteMatch q rem = Some i \<Longrightarrow> i < length q"
  by (induction q arbitrary: i) (auto split: if_splits)

lemma begin_keyed_ok:
  assumes "queues_all (req_ok A) qs" and "req_ok A req" and "begin_keyed k req qs = (qs', w)"
  shows "queues_all (req_ok A) qs'"
proof -
  let ?q = "map_get [] qs k"
  have q: "list_all (req_ok A) ?q" using assms(1) by (rule queues_all_get)
  have c: "Client req \<in> A" using assms(2) by (simp add: req_ok_def req_clients_def)
  have "req_ok A (coalesce (?q ! i) req)" if "findRemoteMatch ?q (Remote req) = Some i" for i
    using q findRemoteMatch_less [OF that] c by (simp add: coalesce_ok list_all_length)
  then show ?thesis
    using assms q req_ok_blind [of A]
    by (auto simp: begin_keyed_def Let_def hold_blind_def intro!: queues_all_put list_all_update
        split: if_splits option.splits)
qed

lemma begin_whois_ok:
  "tracker_ok A rt \<Longrightarrow> oClient opts \<in> A \<Longrightarrow> begin_whois now opts wires rt = (rt', need) \<Longrightarrow> tracker_ok A rt'"
proof (induction now opts wires rt arbitrary: rt' need rule: begin_whois.induct)
  case (1 now opts rt)
  then show ?case by simp
next
  case (2 now opts wire wires rt)
  show ?case
  proof (cases "wire = []")
    case True
    then show ?thesis using 2 by simp
  next
    case False
    obtain qs w where k: "begin_keyed (Canonical (oCaseMapping opts) wire) (whois_request now opts wire rt) (whois rt) = (qs, w)"
      by fastforce
    have "req_ok A (whois_request now opts wire rt)"
      using "2.prems"(2) by (simp add: req_ok_def req_clients_def whois_request_def)
    then have "queues_all (req_ok A) qs"
      using begin_keyed_ok [OF _ _ k] "2.prems"(1) by (simp add: tracker_ok_def all_reqs_def)
    then have "tracker_ok A (rt\<lparr>whois := qs\<rparr>)" using "2.prems"(1) by (simp add: tracker_ok_def all_reqs_def)
    then show ?thesis
      using "2.IH"(2) [OF False k [symmetric]] "2.prems"(2,3) False k by (auto split: prod.splits)
  qed
qed

lemma begin_whox_ok:
  assumes ok: "tracker_ok A rt" and r: "req_ok A req" and "begin_whox req rt = (rt', res)"
  shows "tracker_ok A rt'"
proof -
  have m: "keyed_all (req_ok A) (whox rt)" using ok by (simp add: tracker_ok_def all_reqs_def)
  have c: "Client req \<in> A" using r by (simp add: req_ok_def req_clients_def)
  have "req_ok A (coalesce e req)" if "findMatchingWHOX req rt = Some (tok, e)" for tok e
    using find_SomeD [OF that [unfolded findMatchingWHOX_def]] m c
    by (auto simp: keyed_all_def list_all_iff intro: coalesce_ok)
  moreover have "req_ok A (req\<lparr>WHOXToken := t\<rparr>)" for t using r by (simp add: req_ok_def req_clients_def)
  ultimately have "keyed_all (req_ok A) (whox rt')"
    using assms(3) m by (auto simp: begin_whox_def Let_def keyed_all_put split: option.splits)
  moreover have "labeled rt' = labeled rt" "whois rt' = whois rt" "stats rt' = stats rt" "rmode rt' = rmode rt"
    "topic rt' = topic rt" "names rt' = names rt" "serial rt' = serial rt" "sticky rt' = sticky rt"
    using assms(3) by (auto simp: begin_whox_def Let_def split: option.splits)
  ultimately show ?thesis using ok by (simp add: tracker_ok_def all_reqs_def)
qed

lemma begin_mode_ok:
  assumes ok: "tracker_ok A rt" and r: "req_ok A req" and "begin_mode opts req rt = (rt', res)"
  shows "tracker_ok A rt'"
proof -
  have m: "queues_all (req_ok A) (rmode rt)" using ok by (simp add: tracker_ok_def all_reqs_def)
  have r1: "req_ok A (req\<lparr>ModeLetters := l\<rparr>)" "Client (req\<lparr>ModeLetters := l\<rparr>) \<in> A" for l
    using r by (auto simp: req_ok_def req_clients_def)
  let ?l = "normalizeModeListLetters (oModeLetters opts)"
  let ?k = "modeMapKey (oEnquiryTarget opts) ?l"
  have get: "list_all (req_ok A) (map_get [] (rmode rt) ?k)" using m by (rule queues_all_get)
  show ?thesis
  proof (cases "map_get [] (rmode rt) ?k")
    case Nil
    then show ?thesis
      using assms(3) ok r1(1) by (auto simp: begin_mode_def Let_def tracker_ok_def all_reqs_def queues_all_put)
  next
    case (Cons head q)
    then have "req_ok A (coalesce head (req\<lparr>ModeLetters := ?l\<rparr>))" "list_all (req_ok A) q"
      using get r1(2) by (auto intro: coalesce_ok)
    then show ?thesis
      using assms(3) ok Cons by (auto simp: begin_mode_def Let_def tracker_ok_def all_reqs_def queues_all_put)
  qed
qed

lemma Begin_ok:
  assumes "tracker_ok A rt"
  shows "tracker_ok (insert (oClient opts) A) (fst (Begin now opts rt))"
proof -
  let ?B = "insert (oClient opts) A" and ?rt = "expireLocked now rt"
  let ?req = "new_request now opts ?rt"
  have ok: "tracker_ok ?B ?rt"
    using tk.expire_all [of A rt now] tracker_ok_mono [of A ?rt ?B] assms by (auto simp: tracker_ok_def)
  have r: "req_ok ?B ?req" "serial_ok ?B ?req" "extra ?req = []" "Client ?req \<in> ?B"
    by (simp_all add: req_ok_def serial_ok_def req_clients_def new_request_def)
  have rT: "req_ok ?B (?req\<lparr>Target := t\<rparr>)" "req_ok ?B (?req\<lparr>Label := t\<rparr>)" for t
    using r(1) by (simp_all add: req_ok_def req_clients_def)
  have get: "queues_all (req_ok ?B) (topic ?rt)" "queues_all (req_ok ?B) (stats ?rt)" "queues_all (req_ok ?B) (names ?rt)"
    "queues_all (serial_ok ?B) (serial ?rt)" "keyed_all (req_ok ?B) (labeled ?rt)"
    using ok by (simp_all add: tracker_ok_def all_reqs_def)
  have label: "tracker_ok ?B (fst (begin_label ?req ?rt))"
    using ok get(5) rT(2) by (simp add: begin_label_def tracker_ok_def all_reqs_def keyed_all_put Let_def)
  have serial: "tracker_ok ?B (fst (begin_serial opts ?req ?rt))"
    using ok get(4) r(2) queues_all_get [OF get(4)]
    by (simp add: begin_serial_def tracker_ok_def all_reqs_def queues_all_put Let_def serial_ok_def)
  have topic: "tracker_ok ?B (?rt\<lparr>topic := map_put k (map_get [] (topic ?rt) k @ [?req]) (topic ?rt)\<rparr>)" for k
    using ok get(1) r(1) queues_all_get [OF get(1)] by (simp add: tracker_ok_def all_reqs_def queues_all_put)
  have stats: "tracker_ok ?B (?rt\<lparr>stats := fst (begin_keyed k (?req\<lparr>Target := t\<rparr>) (stats ?rt))\<rparr>)" for k t
    using ok begin_keyed_ok [OF get(2) rT(1), of k t] by (cases "begin_keyed k (?req\<lparr>Target := t\<rparr>) (stats ?rt)")
      (simp add: tracker_ok_def all_reqs_def)
  have names: "tracker_ok ?B (?rt\<lparr>names := fst (begin_keyed k ?req (names ?rt))\<rparr>)" for k
    using ok begin_keyed_ok [OF get(3) r(1), of k] by (cases "begin_keyed k ?req (names ?rt)")
      (simp add: tracker_ok_def all_reqs_def)
  have whois: "tracker_ok ?B (fst (begin_whois now opts ws ?rt))" for ws
    using begin_whois_ok [OF ok, of opts now ws] by (cases "begin_whois now opts ws ?rt") simp
  have whox: "tracker_ok ?B (fst (begin_whox (?req\<lparr>Target := t\<rparr>) ?rt))" for t
    using begin_whox_ok [OF ok rT(1)] by (cases "begin_whox (?req\<lparr>Target := t\<rparr>) ?rt") simp
  have mode: "tracker_ok ?B (fst (begin_mode opts ?req ?rt))"
    using begin_mode_ok [OF ok r(1)] by (cases "begin_mode opts ?req ?rt") simp
  show ?thesis
    using label serial topic stats [of "oStatsLetter opts" "oStatsLetter opts"] names [of "oEnquiryTarget opts"]
      whois [of "oWhoisTargets opts"] whox mode
    by (simp add: Begin_def Let_def split_beta)
qed

lemma SetWHOXClientFix_ok: "tracker_ok A rt \<Longrightarrow> tracker_ok A (SetWHOXClientFix tok t ct rt)"
proof (cases "map_of (whox rt) tok")
  case None
  assume "tracker_ok A rt"
  then show ?thesis using None by (simp add: SetWHOXClientFix_def)
next
  case (Some req)
  assume ok: "tracker_ok A rt"
  then have m: "keyed_all (req_ok A) (whox rt)" by (simp add: tracker_ok_def all_reqs_def)
  then have r: "req_ok A req" using Some by (rule keyed_all_get)
  have "wClient (fixWHOXRewrite b e) = wClient e" for b e
    by (simp add: fixWHOXRewrite_def)
  then have "req_ok A (req\<lparr>WHOXStripToken := x, WHOXClientToken := y, extra := map (fixWHOXRewrite b) (extra req)\<rparr>)"
    "req_ok A (req\<lparr>WHOXStripToken := x, extra := map (fixWHOXRewrite b) (extra req)\<rparr>)" for x y b
    using r by (simp_all add: req_ok_def req_clients_def comp_def)
  then show ?thesis
    using ok m by (auto simp: SetWHOXClientFix_def Some Let_def tracker_ok_def all_reqs_def keyed_all_put)
qed

section \<open>The discipline of the queues\<close>

text \<open>
  \<open>disc R k q\<close>: the queue is not empty, its head has been written, and the hold flags of the others
  satisfy \<open>R k\<close>. \<open>queues_disc\<close> asks it of every queue of a container, which has each key once.
\<close>

definition disc :: "(string \<Rightarrow> bool \<Rightarrow> bool) \<Rightarrow> string \<Rightarrow> pendingRequest list \<Rightarrow> bool" where
  "disc R k q \<longleftrightarrow> q \<noteq> [] \<and> \<not> HoldWrite (hd q) \<and> list_all (\<lambda>r. R k (HoldWrite r)) (tl q)"

definition queues_disc :: "(string \<Rightarrow> bool \<Rightarrow> bool) \<Rightarrow> queues \<Rightarrow> bool" where
  "queues_disc R qs \<longleftrightarrow> wf_map qs \<and> list_all (\<lambda>(k, q). disc R k q) qs"

definition all_held :: "string \<Rightarrow> bool \<Rightarrow> bool" where "all_held k b = b"
definition held_kinds :: "string \<Rightarrow> bool \<Rightarrow> bool" where "held_kinds k b = (holdWrite k \<longrightarrow> b)"
definition none_held :: "string \<Rightarrow> bool \<Rightarrow> bool" where "none_held k b = (\<not> b)"

definition discipline :: "RequestTracker \<Rightarrow> bool" where
  "discipline rt \<longleftrightarrow> queues_disc all_held (whois rt) \<and> queues_disc all_held (stats rt) \<and>
     queues_disc none_held (rmode rt) \<and> queues_disc none_held (topic rt) \<and> queues_disc all_held (names rt) \<and>
     queues_disc held_kinds (serial rt)"

lemma disc_put: "queues_disc R qs \<Longrightarrow> disc R k q \<Longrightarrow> queues_disc R (map_put k q qs)"
  by (simp add: queues_disc_def list_all_put)

lemma disc_del: "queues_disc R qs \<Longrightarrow> queues_disc R (map_del k qs)"
  by (simp add: queues_disc_def list_all_del)

lemma disc_get: "queues_disc R qs \<Longrightarrow> map_get [] qs k = q \<Longrightarrow> q \<noteq> [] \<Longrightarrow> disc R k q"
  by (auto simp: queues_disc_def map_get_def split: option.splits dest: list_all_get)

lemma disc_tail:
  "list_all (\<lambda>r. R k (HoldWrite r)) q \<Longrightarrow> q \<noteq> [] \<Longrightarrow> enqueueHeldWrite q = (q', out) \<Longrightarrow> disc R k q'"
  by (cases q) (auto simp: disc_def enqueueHeldWrite_def split: if_splits)

lemma disc_pop:
  assumes "queues_disc R qs" and "popWaiters k qs = (qs', out)"
  shows "queues_disc R qs'"
proof (cases "map_get [] qs k")
  case Nil
  then show ?thesis using assms by (simp add: popWaiters_def)
next
  case (Cons r rest)
  have tl: "list_all (\<lambda>r. R k (HoldWrite r)) rest" using disc_get [OF assms(1) Cons] by (simp add: disc_def)
  obtain q1 out1 where enq: "enqueueHeldWrite rest = (q1, out1)" by fastforce
  show ?thesis
  proof (cases "rest = []")
    case True
    then show ?thesis using assms Cons by (auto simp: popWaiters_def intro: disc_del)
  next
    case False
    then have "disc R k q1" using disc_tail [of R k, OF tl _ enq] by simp
    then show ?thesis using assms Cons False enq by (auto simp: popWaiters_def intro: disc_put)
  qed
qed

lemma disc_filter:
  assumes "disc R k q" and "filter f q \<noteq> []" and "enqueueHeldWrite (filter f q) = (q', out)"
  shows "disc R k (if f (hd q) then filter f q else q')"
proof -
  obtain r rest where q: "q = r # rest" using assms(1) by (cases q) (auto simp: disc_def)
  then have "list_all (\<lambda>r. R k (HoldWrite r)) (filter f rest)"
    using assms(1) by (auto simp: disc_def list_all_iff)
  then show ?thesis
    using assms disc_tail [of R k "filter f rest" q' out] by (auto simp: disc_def q split: if_splits)
qed

lemma expireQueue_keys: "fst ` set (fst (expireQueue now qs)) \<subseteq> fst ` set qs"
proof (induction now qs rule: expireQueue.induct)
  case (2 now key q qs)
  then show ?case by (simp add: Let_def split_beta subset_insertI2)
qed simp

lemma dropQueueClient_keys: "fst ` set (fst (dropQueueClient c qs)) \<subseteq> fst ` set qs"
proof (induction c qs rule: dropQueueClient.induct)
  case (2 c key q qs)
  then show ?case by (simp add: Let_def split_beta subset_insertI2)
qed simp

lemma drop_serial_keys: "fst ` set (fst (drop_serial c qs)) \<subseteq> fst ` set qs"
proof (induction c qs rule: drop_serial.induct)
  case (2 c key q qs)
  then show ?case by (simp add: Let_def split_beta subset_insertI2)
qed simp

lemma queues_disc_Cons:
  "queues_disc R ((k, q) # qs) \<longleftrightarrow> k \<notin> fst ` set qs \<and> disc R k q \<and> queues_disc R qs"
  by (auto simp: queues_disc_def)

lemma expireQueue_disc: "queues_disc R qs \<Longrightarrow> expireQueue now qs = (qs', out) \<Longrightarrow> queues_disc R qs'"
proof (induction now qs arbitrary: qs' out rule: expireQueue.induct)
  case (1 now)
  then show ?case by simp
next
  case (2 now key q qs)
  obtain qs1 out1 where rec: "expireQueue now qs = (qs1, out1)" by fastforce
  obtain q1 out2 where enq: "enqueueHeldWrite (filter (\<lambda>req. \<not> stale now req) q) = (q1, out2)" by fastforce
  have q: "disc R key q" "queues_disc R qs" "key \<notin> fst ` set qs" using "2.prems"(1) by (simp_all add: queues_disc_Cons)
  have "queues_disc R qs1" "key \<notin> fst ` set qs1"
    using "2.IH" [OF _ _ q(2) rec] q(3) expireQueue_keys [of now qs] rec by auto
  then show ?case
    using "2.prems"(2) q disc_filter [OF q(1) _ enq] enq
    by (auto simp: rec Let_def queues_disc_Cons disc_def split: if_splits)
qed

lemma drop_waiters_map:
  "drop_waiters c q = map (\<lambda>r. fst (req_dropClient c r)) (filter (\<lambda>r. \<not> snd (req_dropClient c r)) q)"
  by (induction q) (auto split: prod.splits bool.splits)

lemma hold_dropClient [simp]: "HoldWrite (fst (req_dropClient c r)) = HoldWrite r"
  by (auto simp: req_dropClient_def split: list.splits)

lemma disc_map: "(\<And>r. HoldWrite (g r) = HoldWrite r) \<Longrightarrow> disc R k (map g q) = disc R k q"
  by (cases q) (simp_all add: disc_def list_all_iff)

lemma dropQueueClient_disc: "queues_disc R qs \<Longrightarrow> dropQueueClient c qs = (qs', out) \<Longrightarrow> queues_disc R qs'"
proof (induction c qs arbitrary: qs' out rule: dropQueueClient.induct)
  case (1 c)
  then show ?case by simp
next
  case (2 c target q qs)
  obtain qs1 out1 where rec: "dropQueueClient c qs = (qs1, out1)" by fastforce
  have q: "disc R target q" "queues_disc R qs" "target \<notin> fst ` set qs" using "2.prems"(1) by (simp_all add: queues_disc_Cons)
  have qs1: "queues_disc R qs1" "target \<notin> fst ` set qs1"
    using "2.IH" [OF _ _ q(2) rec] q(3) dropQueueClient_keys [of c qs] rec by auto
  obtain r rest where r: "q = r # rest" using q(1) by (cases q) (auto simp: disc_def)
  have tl: "list_all (\<lambda>r. R target (HoldWrite r)) (drop_waiters c rest)"
    using q(1) r by (auto simp: disc_def drop_waiters_map list_all_iff)
  show ?case
  proof (cases "snd (req_dropClient c r)")
    case True
    then have "drop_waiters c q = drop_waiters c rest" by (simp add: r drop_waiters_map)
    then show ?thesis
      using "2.prems"(2) qs1 True r disc_tail [of R target, OF tl]
      by (auto simp: rec Let_def queues_disc_Cons split: if_splits prod.splits)
  next
    case False
    then have "drop_waiters c q = fst (req_dropClient c r) # drop_waiters c rest" by (simp add: r drop_waiters_map)
    then have "disc R target (drop_waiters c q)" using q(1) r tl by (simp add: disc_def)
    then show ?thesis
      using "2.prems"(2) qs1 False r by (auto simp: rec Let_def queues_disc_Cons split: if_splits)
  qed
qed

lemma drop_serial_disc: "queues_disc R qs \<Longrightarrow> drop_serial c qs = (qs', out) \<Longrightarrow> queues_disc R qs'"
proof (induction c qs arbitrary: qs' out rule: drop_serial.induct)
  case (1 c)
  then show ?case by simp
next
  case (2 c kind q qs)
  obtain qs1 out1 where rec: "drop_serial c qs = (qs1, out1)" by fastforce
  obtain q1 out2 where enq: "enqueueHeldWrite (filter (\<lambda>req. Client req \<noteq> c) q) = (q1, out2)" by fastforce
  have q: "disc R kind q" "queues_disc R qs" "kind \<notin> fst ` set qs" using "2.prems"(1) by (simp_all add: queues_disc_Cons)
  have "queues_disc R qs1" "kind \<notin> fst ` set qs1"
    using "2.IH" [OF _ _ q(2) rec] q(3) drop_serial_keys [of c qs] rec by auto
  then show ?case
    using "2.prems"(2) q disc_filter [OF q(1) _ enq] enq
    by (auto simp: rec Let_def queues_disc_Cons disc_def split: if_splits)
qed

lemma expire_discipline: "discipline rt \<Longrightarrow> discipline (expireLocked now rt)"
  unfolding discipline_def expireLocked_def by (auto split: prod.splits intro: expireQueue_disc)

lemma DropClient_discipline: "discipline rt \<Longrightarrow> discipline (DropClient c rt)"
  unfolding discipline_def DropClient_def
  by (auto split: prod.splits intro: dropQueueClient_disc drop_serial_disc)

end
