(* ===== verification/Tracker_Release.thy ===== *)
theory Tracker_Release
  imports Tracker_Props "HOL-Library.Multiset"
begin

text \<open>
  The lines that wait in the queues of the request tracker. A held request keeps its line until the request in
  front of it is taken off; the lemmas account for these lines, as multisets, over every operation on a queue
  and on a container: what leaves the queues is handed out, and nothing else is.
\<close>

section \<open>Waiting lines\<close>

definition out_line :: "pendingRequest \<Rightarrow> message list" where
  "out_line r = (if Command (Outbound r) \<noteq> [] \<or> Raw (Outbound r) \<noteq> [] then [Outbound r] else [])"

text \<open>The lines of the held requests of a queue, of a container and of the tracker that satisfy a predicate.\<close>

definition held_lines :: "(pendingRequest \<Rightarrow> bool) \<Rightarrow> pendingRequest list \<Rightarrow> message list" where
  "held_lines P q = concat (map out_line (filter (\<lambda>r. HoldWrite r \<and> P r) q))"

definition held_in :: "(pendingRequest \<Rightarrow> bool) \<Rightarrow> queues \<Rightarrow> message list" where
  "held_in P qs = concat (map (\<lambda>(_, q). held_lines P q) qs)"

text \<open>\<open>S\<close> is the predicate on the requests of the serialised queues, \<open>P\<close> the one on all others.\<close>

definition waiting_lines :: "(pendingRequest \<Rightarrow> bool) \<Rightarrow> (pendingRequest \<Rightarrow> bool) \<Rightarrow> RequestTracker \<Rightarrow> message list" where
  "waiting_lines P S rt = held_in P (whois rt) @ held_in P (stats rt) @ held_in P (rmode rt) @ held_in P (topic rt) @
     held_in P (names rt) @ held_in S (serial rt)"

abbreviation everyone :: "pendingRequest \<Rightarrow> bool" where "everyone \<equiv> \<lambda>_. True"

lemma held_lines_simps [simp]:
  "held_lines P [] = []"
  "held_lines P (r # q) = (if HoldWrite r \<and> P r then out_line r else []) @ held_lines P q"
  "held_lines P (q @ q') = held_lines P q @ held_lines P q'"
  by (simp_all add: held_lines_def)

lemma held_in_simps [simp]:
  "held_in P [] = []"
  "held_in P ((k, q) # qs) = held_lines P q @ held_in P qs"
  by (simp_all add: held_in_def)

lemma held_lines_filter: "held_lines everyone (filter P q) = held_lines P q"
  by (simp add: held_lines_def conj_commute)

lemma held_lines_map:
  "(\<And>r. HoldWrite (g r) = HoldWrite r \<and> Outbound (g r) = Outbound r) \<Longrightarrow> held_lines everyone (map g q) = held_lines everyone q"
  by (induction q) (simp_all add: out_line_def)

section \<open>One container\<close>

lemma held_in_put:
  "wf_map qs \<Longrightarrow> mset (held_in P (map_put k q qs)) + mset (held_lines P (map_get [] qs k)) =
     mset (held_in P qs) + mset (held_lines P q)"
proof (induction qs)
  case (Cons e qs)
  obtain j p where e: "e = (j, p)" by (cases e)
  show ?case
  proof (cases "j = k")
    case False
    then have "map_get [] (e # qs) k = map_get [] qs k" by (simp add: e map_get_def)
    then show ?thesis using Cons False by (simp add: e add.assoc)
  qed (simp add: e map_get_def)
qed simp

lemma held_in_del:
  "wf_map qs \<Longrightarrow> mset (held_in P (map_del k qs)) + mset (held_lines P (map_get [] qs k)) = mset (held_in P qs)"
proof (induction qs)
  case (Cons e qs)
  obtain j p where e: "e = (j, p)" by (cases e)
  show ?case
  proof (cases "j = k")
    case True
    then have "map_del k (e # qs) = qs" using Cons.prems by (simp add: e delete_id)
    then show ?thesis by (simp add: e True map_get_def)
  next
    case False
    then have "map_get [] (e # qs) k = map_get [] qs k" by (simp add: e map_get_def)
    then show ?thesis using Cons False by (simp add: e add.assoc)
  qed
qed simp

lemma enqueue_lines: "enqueueHeldWrite q = (q', out) \<Longrightarrow> out @ held_lines everyone q' = held_lines everyone q"
  by (cases q) (auto simp: enqueueHeldWrite_def out_line_def split: if_splits)

lemma held_head: "disc R k (r # q) \<Longrightarrow> held_lines P (r # q) = held_lines P q"
  by (simp add: disc_def)

lemma pop_lines:
  assumes "queues_disc R qs" and "popWaiters k qs = (qs', out)"
  shows "mset out + mset (held_in everyone qs') = mset (held_in everyone qs)"
proof (cases "map_get [] qs k")
  case Nil
  then show ?thesis using assms by (simp add: popWaiters_def)
next
  case (Cons r rest)
  have wf: "wf_map qs" using assms(1) by (simp add: queues_disc_def)
  have h: "held_lines everyone (map_get [] qs k) = held_lines everyone rest"
    using disc_get [OF assms(1) Cons] Cons by (simp add: disc_def)
  obtain q1 o1 where enq: "enqueueHeldWrite rest = (q1, o1)" by fastforce
  show ?thesis
  proof (cases "rest = []")
    case True
    then show ?thesis using assms(2) Cons held_in_del [OF wf, of everyone k] h by (simp add: popWaiters_def)
  next
    case False
    then have "qs' = map_put k q1 qs" "out = o1" using assms(2) Cons enq by (simp_all add: popWaiters_def)
    moreover have "mset (held_lines everyone rest) = mset o1 + mset (held_lines everyone q1)"
      using enqueue_lines [OF enq] by (metis mset_append)
    ultimately have "mset out + mset (held_in everyone qs') + mset (held_lines everyone q1) =
        mset (held_in everyone qs) + mset (held_lines everyone q1)"
      using held_in_put [OF wf, of everyone k q1] h by (simp add: ac_simps)
    then show ?thesis by simp
  qed
qed

lemma none_held_lines:
  assumes "queues_disc none_held qs"
  shows "held_in P qs = []"
proof -
  have "held_lines P q = []" if "disc none_held k q" for k q
    using that by (cases q) (auto simp: disc_def none_held_def held_lines_def list_all_iff filter_empty_conv)
  then show ?thesis using assms by (auto simp: queues_disc_def held_in_def list_all_iff)
qed

section \<open>Expiry and departure\<close>

lemma expireQueue_lines:
  "expireQueue now qs = (qs', out) \<Longrightarrow>
   mset out + mset (held_in everyone qs') = mset (held_in (\<lambda>r. \<not> stale now r) qs)"
proof (induction now qs arbitrary: qs' out rule: expireQueue.induct)
  case (1 now)
  then show ?case by simp
next
  case (2 now key q qs)
  let ?kept = "filter (\<lambda>req. \<not> stale now req) q"
  obtain qs1 out1 where rec: "expireQueue now qs = (qs1, out1)" by fastforce
  obtain q1 out2 where enq: "enqueueHeldWrite ?kept = (q1, out2)" by fastforce
  have IH: "mset (held_in (\<lambda>r. \<not> stale now r) qs) = mset out1 + mset (held_in everyone qs1)"
    using "2.IH" [OF _ _ rec] by simp
  have kept: "held_lines everyone ?kept = held_lines (\<lambda>r. \<not> stale now r) q" by (rule held_lines_filter)
  have "?kept = q" if "length ?kept = length q" using that by (metis filter_id_conv length_filter_less nless_le)
  moreover have "mset (held_lines (\<lambda>r. \<not> stale now r) q) = mset out2 + mset (held_lines everyone q1)"
    using enqueue_lines [OF enq] kept by (metis mset_append)
  moreover have "held_lines (\<lambda>r. \<not> stale now r) q = []" if "?kept = []" using kept that by simp
  ultimately show ?case
    using "2.prems" IH kept enq by (auto simp: rec Let_def ac_simps split: if_splits)
qed

definition departs :: "ClientID \<Rightarrow> pendingRequest \<Rightarrow> bool" where
  "departs c r \<longleftrightarrow> snd (req_dropClient c r)"

lemma departs_iff: "departs c r \<longleftrightarrow> Client r = c \<and> extra r = []"
  by (auto simp: departs_def req_dropClient_def split: list.splits)

lemma outbound_dropClient [simp]: "Outbound (fst (req_dropClient c r)) = Outbound r"
  by (auto simp: req_dropClient_def split: list.splits)

lemma drop_waiters_lines: "held_lines everyone (drop_waiters c q) = held_lines (\<lambda>r. \<not> departs c r) q"
  by (simp add: drop_waiters_map held_lines_map held_lines_filter departs_def)

lemma dropQueueClient_lines:
  "dropQueueClient c qs = (qs', out) \<Longrightarrow>
   mset out + mset (held_in everyone qs') = mset (held_in (\<lambda>r. \<not> departs c r) qs)"
proof (induction c qs arbitrary: qs' out rule: dropQueueClient.induct)
  case (1 c)
  then show ?case by simp
next
  case (2 c target q qs)
  let ?kept = "drop_waiters c q"
  obtain qs1 out1 where rec: "dropQueueClient c qs = (qs1, out1)" by fastforce
  obtain q1 out2 where enq: "enqueueHeldWrite ?kept = (q1, out2)" by fastforce
  have IH: "mset (held_in (\<lambda>r. \<not> departs c r) qs) = mset out1 + mset (held_in everyone qs1)"
    using "2.IH" [OF _ _ rec] by simp
  have "mset (held_lines (\<lambda>r. \<not> departs c r) q) = mset out2 + mset (held_lines everyone q1)"
    using enqueue_lines [OF enq] drop_waiters_lines [of c q] by (metis mset_append)
  moreover have "held_lines (\<lambda>r. \<not> departs c r) q = []" if "?kept = []"
    using drop_waiters_lines [of c q] that by simp
  ultimately show ?case
    using "2.prems" IH drop_waiters_lines [of c q] enq by (auto simp: rec Let_def ac_simps split: if_splits)
qed

lemma drop_serial_lines:
  "drop_serial c qs = (qs', out) \<Longrightarrow>
   mset out + mset (held_in everyone qs') = mset (held_in (\<lambda>r. Client r \<noteq> c) qs)"
proof (induction c qs arbitrary: qs' out rule: drop_serial.induct)
  case (1 c)
  then show ?case by simp
next
  case (2 c kind q qs)
  let ?kept = "filter (\<lambda>req. Client req \<noteq> c) q"
  obtain qs1 out1 where rec: "drop_serial c qs = (qs1, out1)" by fastforce
  obtain q1 out2 where enq: "enqueueHeldWrite ?kept = (q1, out2)" by fastforce
  have IH: "mset (held_in (\<lambda>r. Client r \<noteq> c) qs) = mset out1 + mset (held_in everyone qs1)"
    using "2.IH" [OF _ _ rec] by simp
  have kept: "held_lines everyone ?kept = held_lines (\<lambda>r. Client r \<noteq> c) q" by (rule held_lines_filter)
  have "mset (held_lines (\<lambda>r. Client r \<noteq> c) q) = mset out2 + mset (held_lines everyone q1)"
    using enqueue_lines [OF enq] kept by (metis mset_append)
  moreover have "held_lines (\<lambda>r. Client r \<noteq> c) q = []" if "?kept = []" using kept that by simp
  ultimately show ?case
    using "2.prems" IH kept enq by (auto simp: rec Let_def ac_simps split: if_splits)
qed

text \<open>
  \<open>releases rt P S rt'\<close>: the step from \<open>rt\<close> to \<open>rt'\<close> adds to \<open>ready\<close> exactly those of the lines waiting in \<open>rt\<close>, of
  requests that satisfy the predicates, that do not wait any more in \<open>rt'\<close>.
\<close>

definition releases :: "RequestTracker \<Rightarrow> (pendingRequest \<Rightarrow> bool) \<Rightarrow> (pendingRequest \<Rightarrow> bool) \<Rightarrow> RequestTracker \<Rightarrow> bool" where
  "releases rt P S rt' \<longleftrightarrow> (\<exists>out. ready rt' = ready rt @ out \<and>
     mset out + mset (waiting_lines everyone everyone rt') = mset (waiting_lines P S rt))"

lemma releases_refl: "releases rt everyone everyone rt"
  by (simp add: releases_def)

lemma releases_trans:
  assumes "releases rt P S rt1" and "releases rt1 everyone everyone rt2"
  shows "releases rt P S rt2"
proof -
  obtain o1 o2 where o: "ready rt1 = ready rt @ o1" "ready rt2 = ready rt1 @ o2"
    "mset o1 + mset (waiting_lines everyone everyone rt1) = mset (waiting_lines P S rt)"
    "mset o2 + mset (waiting_lines everyone everyone rt2) = mset (waiting_lines everyone everyone rt1)"
    using assms unfolding releases_def by blast
  then show ?thesis unfolding releases_def by (intro exI [of _ "o1 @ o2"]) (metis add.assoc append.assoc mset_append)
qed

lemma expire_releases: "releases rt (\<lambda>r. \<not> stale now r) (\<lambda>r. \<not> stale now r) (expireLocked now rt)"
proof -
  let ?P = "\<lambda>r. \<not> stale now r"
  have q: "mset (snd (expireQueue now qs)) + mset (held_in everyone (fst (expireQueue now qs))) = mset (held_in ?P qs)" for qs
    using expireQueue_lines [of now qs] by (cases "expireQueue now qs") simp
  show ?thesis
    unfolding releases_def
    by (intro exI [of _ "snd (expireQueue now (whois rt)) @ snd (expireQueue now (stats rt)) @
          snd (expireQueue now (rmode rt)) @ snd (expireQueue now (topic rt)) @ snd (expireQueue now (names rt)) @
          snd (expireQueue now (serial rt))"])
      (simp add: expireLocked_def waiting_lines_def split_beta q [symmetric] ac_simps)
qed

lemma drop_releases: "releases rt (\<lambda>r. \<not> departs c r) (\<lambda>r. Client r \<noteq> c) (DropClient c rt)"
proof -
  have q: "mset (snd (dropQueueClient c qs)) + mset (held_in everyone (fst (dropQueueClient c qs))) =
      mset (held_in (\<lambda>r. \<not> departs c r) qs)" for qs
    using dropQueueClient_lines [of c qs] by (cases "dropQueueClient c qs") simp
  have s: "mset (snd (drop_serial c qs)) + mset (held_in everyone (fst (drop_serial c qs))) =
      mset (held_in (\<lambda>r. Client r \<noteq> c) qs)" for qs
    using drop_serial_lines [of c qs] by (cases "drop_serial c qs") simp
  show ?thesis
    unfolding releases_def
    by (intro exI [of _ "snd (dropQueueClient c (whois rt)) @ snd (dropQueueClient c (stats rt)) @
          snd (dropQueueClient c (rmode rt)) @ snd (dropQueueClient c (topic rt)) @ snd (dropQueueClient c (names rt)) @
          snd (drop_serial c (serial rt))"])
      (simp add: DropClient_def waiting_lines_def split_beta q [symmetric] s [symmetric] ac_simps)
qed

end
