(* ===== verification/Tracker_Ops.thy ===== *)
theory Tracker_Ops
  imports Tracker_Release
begin

text \<open>
  The request tracker under any sequence of its operations: the discipline of the queues for the
  remaining operations, the machine of all operations, and the properties.
\<close>

section \<open>Discipline of routing and of Begin\<close>




















lemma hold_coalesce [simp]: "HoldWrite (coalesce r other) = HoldWrite r"
  by (simp add: coalesce_def)








section \<open>What routing and Begin do to the waiting lines\<close>






























section \<open>All operations as a machine\<close>

datatype tracker_op =
    OpBegin int BeginOpts
  | OpRoute int message CaseMapping
  | OpDrop ClientID
  | OpFix string bool string
  | OpTake
  | OpIRCd string

fun tracker_step :: "RequestTracker \<Rightarrow> tracker_op \<Rightarrow> RequestTracker \<times> RouteDest list" where
  "tracker_step rt (OpBegin now opts) = (fst (Begin now opts rt), [])"
| "tracker_step rt (OpRoute now msg cm) = routeLocked now msg cm rt"
| "tracker_step rt (OpDrop c) = (DropClient c rt, [])"
| "tracker_step rt (OpFix tok t ct) = (SetWHOXClientFix tok t ct rt, [])"
| "tracker_step rt OpTake = (fst (TakeReady rt), [])"
| "tracker_step rt (OpIRCd family) = (SetIRCd family rt, [])"

text \<open>The clients with a request registered and not dropped since.\<close>

fun asking :: "ClientID set \<Rightarrow> tracker_op list \<Rightarrow> ClientID set" where
  "asking A [] = A"
| "asking A (OpBegin now opts # ops) = asking (insert (oClient opts) A) ops"
| "asking A (OpDrop c # ops) = asking (A - {c}) ops"
| "asking A (_ # ops) = asking A ops"




lemma tracker_ok_new [simp]: "tracker_ok A NewRequestTracker"
  by (simp add: tracker_ok_def all_reqs_def NewRequestTracker_def queues_all_def keyed_all_def sticky_all_def)

lemma tracker_ok_run: "tracker_ok A rt \<Longrightarrow> tracker_ok (asking A ops) (fst (run tracker_step rt ops))"
proof (induction ops arbitrary: A rt)
  case Nil
  then show ?case by simp
next
  case (Cons op ops)
  obtain rt1 o1 where 1: "tracker_step rt op = (rt1, o1)" by fastforce
  have run: "fst (run tracker_step rt (op # ops)) = fst (run tracker_step rt1 ops)"
    using 1 by (simp split: prod.splits)
  have "tracker_ok (asking A [op]) rt1"
  proof (cases op)
    case (OpRoute now msg cm)
    then show ?thesis using 1 Cons.prems tk.route_ok [of A rt now msg cm] by (auto simp: tracker_ok_def)
  qed (use 1 Cons.prems Begin_ok DropClient_ok SetWHOXClientFix_ok in
      \<open>auto simp: TakeReady_def SetIRCd_def tracker_ok_def all_reqs_def\<close>)
  moreover have "asking A (op # ops) = asking (asking A [op]) ops" by (cases op) auto
  ultimately show ?case using Cons.IH [of "asking A [op]" rt1] run by simp
qed

section \<open>LIST, as an example of a serialised stream\<close>

definition list_reply :: "message \<Rightarrow> bool" where
  "list_reply msg \<longleftrightarrow> Tags msg = [] \<and> Command msg \<in> {''321'', ''322'', ''323''}"

lemma list_reply_serial:
  assumes "list_reply msg"
  shows "routeLocked now msg cm rt =
    (case route_serial msg (expireLocked now rt) of Some r \<Rightarrow> r | None \<Rightarrow> (expireLocked now rt, []))"
proof -
  let ?rt = "expireLocked now rt"
  have cmd: "Command msg = ''321'' \<or> Command msg = ''322'' \<or> Command msg = ''323''" and "Tags msg = []"
    using assms by (auto simp: list_reply_def)
  then have "route_label now msg cm ?rt = None" by (simp add: route_label_def)
  moreover have "route_sticky msg cm ?rt = None" "route_stats402 msg ?rt = None" "route_stats219 msg ?rt = None"
    "route_whox354 msg ?rt = None" "route_whox315 msg cm ?rt = None" "route_whox_single msg ?rt = None"
    using cmd by (auto simp: route_sticky_def route_stats402_def route_stats219_def route_whox354_def
        route_whox315_def route_whox_single_def)
  moreover have "modeEnquiryNumericTarget msg cm = []" using cmd by (auto simp: modeEnquiryNumericTarget_def)
  then have "routeModeLocked now msg cm ?rt = None" by (simp add: routeModeLocked_def)
  moreover have "topicEnquiryNumericTarget msg cm = []" using cmd by (auto simp: topicEnquiryNumericTarget_def)
  then have "route_topic msg cm ?rt = None" by (simp add: route_topic_def)
  moreover have "namesNumericTarget msg cm = []" using cmd by (auto simp: namesNumericTarget_def)
  then have "route_names msg cm ?rt = None" by (simp add: route_names_def)
  moreover have "\<not> isSTATSNumeric (Command msg)" using cmd by (auto simp: isSTATSNumeric_def)
  then have "route_stats_body msg ?rt = None" by (simp add: route_stats_body_def)
  moreover have "\<not> IsWHOISReply (Command msg) (ircd ?rt)"
    using cmd by (elim disjE) (simp_all add: IsWHOISReply_def)
  then have "route_whois msg cm ?rt = None" by (simp add: route_whois_def)
  ultimately show ?thesis by (simp add: routeLocked_def route_attempts_def split: option.splits)
qed

lemma list_head:
  assumes "map_get [] (serial rt) ''LIST'' = req # q" and "ReplyCodes req = replyCodesFor ''LIST'' fam" and "list_reply msg"
  shows "serialHeadFor (Command msg) (serial rt) serialKindOrder = Some (''LIST'', req)"
proof -
  have "head_takes (Command msg) req" using assms(2,3) by (auto simp: head_takes_def replyCodesFor_def list_reply_def)
  then show ?thesis using assms(1) by (simp add: serialKindOrder_def)
qed

section \<open>Properties\<close>

text \<open>
  C4. Replies go only to downlinks that asked: after any sequence of operations on a new tracker, every
  destination of a routed message is a client that has begun an enquiry and has not been dropped
  since its last one. In particular nothing is routed to a disconnected client.
\<close>

theorem routes_only_to_askers:
  assumes "routeLocked now msg cm (fst (run tracker_step NewRequestTracker ops)) = (rt', dests)"
  shows "dClient ` set dests \<subseteq> asking {} ops"
proof -
  have "tracker_ok (asking {} ops) (fst (run tracker_step NewRequestTracker ops))"
    by (rule tracker_ok_run) simp
  then have "list_all (\<lambda>d. dClient d \<in> asking {} ops) dests"
    using tk.route_ok [OF _ assms] unfolding tracker_ok_def by blast
  then show ?thesis by (auto simp: list_all_iff)
qed

definition sample_opts :: "ClientID \<Rightarrow> string \<Rightarrow> BeginOpts" where
  "sample_opts c cmd = \<lparr>oClient = c, oCmd = cmd, oClientLabel = [], oPreferLabel = False, oPreferWHOX = False,
     oWhoisTargets = [], oCaseMapping = CaseRFC1459, oWHOMask = [], oStatsLetter = [], oEnquiryTarget = [],
     oModeLetters = [], oWHOXFlags = [], oWHOXFields = [], oWHOXClientToken = [], oRemote = [],
     oOutbound = mk_message [] cmd [c]\<rparr>"

lemma begin_list:
  "Begin now (sample_opts c ''LIST'') rt =
     begin_serial (sample_opts c ''LIST'') (new_request now (sample_opts c ''LIST'') (expireLocked now rt)) (expireLocked now rt)"
  by (simp add: Begin_def sample_opts_def Let_def)

definition list_request :: "int \<Rightarrow> ClientID \<Rightarrow> bool \<Rightarrow> pendingRequest" where
  "list_request now c h = (new_request now (sample_opts c ''LIST'') NewRequestTracker)\<lparr>HoldWrite := h\<rparr>"

definition list_state :: "pendingRequest list \<Rightarrow> message list \<Rightarrow> RequestTracker" where
  "list_state q out = NewRequestTracker\<lparr>serial := (if q = [] then [] else [(''LIST'', q)]), ready := out\<rparr>"

lemma list_state_fresh:
  "list_all (\<lambda>r. \<not> stale now r) q \<Longrightarrow> expireLocked now (list_state q out) = list_state q out"
proof -
  assume "list_all (\<lambda>r. \<not> stale now r) q"
  then have "filter (\<lambda>r. \<not> stale now r) q = q" by (simp add: filter_id_conv list_all_iff)
  then show ?thesis by (cases q) (simp_all add: expireLocked_def list_state_def NewRequestTracker_def Let_def)
qed

lemma begin_list_state:
  assumes "list_all (\<lambda>r. \<not> stale now r) q"
  shows "fst (Begin now (sample_opts c ''LIST'') (list_state q out)) = list_state (q @ [list_request now c (q \<noteq> [])]) out"
  using assms
  by (simp add: begin_list list_state_fresh begin_serial_def Let_def holdWrite_def list_request_def)
    (auto simp: sample_opts_def list_state_def NewRequestTracker_def new_request_def map_get_def)

lemma list_state_new: "NewRequestTracker = list_state [] []"
  by (simp add: list_state_def NewRequestTracker_def)

lemma two_lists:
  "fst (run tracker_step NewRequestTracker [OpBegin 1 (sample_opts ''A'' ''LIST''), OpBegin 2 (sample_opts ''B'' ''LIST'')]) =
   list_state [list_request 1 ''A'' False, list_request 2 ''B'' True] []"
proof -
  have "\<not> stale 2 (list_request 1 ''A'' False)"
    by (simp add: stale_def requestTTL_def list_request_def new_request_def)
  then show ?thesis
    using begin_list_state [of 2 "[list_request 1 ''A'' False]" "''B''" "[]"] begin_list_state [of 1 "[]" "''A''" "[]"]
    by (simp add: list_state_new split_beta)
qed

lemma list_route:
  assumes "list_reply msg" and "list_all (\<lambda>r. \<not> stale now r) (req # q)"
    and "ReplyCodes req = replyCodesFor ''LIST'' []" and "EndCodes req = endCodesFor ''LIST'' []"
  shows "routeLocked now msg cm (list_state (req # q) out) =
    (if Command msg = ''323''
     then (case enqueueHeldWrite q of (q1, o1) \<Rightarrow> list_state q1 (out @ o1)) else list_state (req # q) out, destsOf req)"
proof -
  let ?rt = "list_state (req # q) out"
  have get: "map_get [] (serial ?rt) ''LIST'' = req # q" by (simp add: list_state_def map_get_def)
  have "Command msg \<in> set (EndCodes req) \<longleftrightarrow> Command msg = ''323''"
    using assms(1,4) by (auto simp: endCodesFor_def list_reply_def)
  then show ?thesis
    using list_reply_serial [OF assms(1)] list_state_fresh [OF assms(2)] list_head [OF get assms(3,1)] get
    by (cases q) (auto simp: route_serial_def popWaiters_def enqueueHeldWrite_def list_state_def NewRequestTracker_def
        split: prod.splits)
qed

theorem routes_only_to_askers_witness:
  "\<exists>rt' dests. routeLocked 5 (mk_message ''s'' ''322'' [''n'']) CaseRFC1459
     (fst (run tracker_step NewRequestTracker [OpBegin 1 (sample_opts ''A'' ''LIST''), OpBegin 2 (sample_opts ''B'' ''LIST'')]))
     = (rt', dests) \<and> dests \<noteq> [] \<and> dClient ` set dests \<subseteq> {''A'', ''B''}"
proof -
  let ?ops = "[OpBegin 1 (sample_opts ''A'' ''LIST''), OpBegin 2 (sample_opts ''B'' ''LIST'')]"
  let ?r = "routeLocked 5 (mk_message ''s'' ''322'' [''n'']) CaseRFC1459 (fst (run tracker_step NewRequestTracker ?ops))"
  have "snd ?r = destsOf (list_request 1 ''A'' False)"
    unfolding two_lists
    by (subst list_route) (simp_all add: list_reply_def stale_def requestTTL_def list_request_def new_request_def
        NewRequestTracker_def sample_opts_def)
  then have "snd ?r \<noteq> []" by (simp add: destsOf_def)
  moreover have "dClient ` set (snd ?r) \<subseteq> asking {} ?ops" by (rule routes_only_to_askers) (rule prod.collapse [symmetric])
  moreover have "asking {} ?ops = {''B'', ''A''}" by (simp add: sample_opts_def)
  ultimately show ?thesis by (intro exI [of _ "fst ?r"] exI [of _ "snd ?r"]) auto
qed



lemma expireQueue_fresh: "expireQueue now qs = (qs', out) \<Longrightarrow> queues_all (\<lambda>r. \<not> stale now r) qs'"
proof (induction now qs arbitrary: qs' out rule: expireQueue.induct)
  case (1 now)
  then show ?case by (simp add: queues_all_def)
next
  case (2 now key q qs)
  let ?kept = "filter (\<lambda>req. \<not> stale now req) q"
  obtain qs1 out1 where rec: "expireQueue now qs = (qs1, out1)" by fastforce
  have qs1: "queues_all (\<lambda>r. \<not> stale now r) qs1" using "2.IH" [OF _ _ rec] by blast
  obtain q1 out2 where enq: "enqueueHeldWrite ?kept = (q1, out2)" by fastforce
  have kept: "list_all (\<lambda>r. \<not> stale now r) ?kept" by (simp add: list_all_iff)
  have q1: "list_all (\<lambda>r. \<not> stale now r) q1" using enqueue_all [OF fresh.hold(1) kept enq] .
  have "list_all (\<lambda>r. \<not> stale now r) q" if "length ?kept = length q"
    using that kept by (metis filter_id_conv length_filter_less list_all_iff nless_le)
  then show ?case
    using "2.prems" qs1 kept q1 enq by (auto simp: rec Let_def queues_all_def split: if_splits)
qed

lemma expire_fresh: "all_reqs (\<lambda>r. \<not> stale now r) (\<lambda>r. \<not> stale now r) (\<lambda>_. True) (expireLocked now rt)"
  unfolding all_reqs_def expireLocked_def
  by (auto simp: keyed_all_def sticky_all_def list_all_iff split: prod.splits intro: expireQueue_fresh)

definition pending :: "RequestTracker \<Rightarrow> pendingRequest list" where
  "pending rt = map snd (labeled rt) @ map snd (whox rt) @
     concat (map snd (whois rt) @ map snd (stats rt) @ map snd (rmode rt) @ map snd (topic rt) @ map snd (names rt) @
             map snd (serial rt))"

lemma all_reqs_pending: "all_reqs P P (\<lambda>_. True) rt = list_all P (pending rt)"
proof -
  have "keyed_all P m = list_all P (map snd m)" for m by (induction m) (auto simp: keyed_all_def)
  moreover have "queues_all P qs = list_all P (concat (map snd qs))" for qs
    by (induction qs) (auto simp: queues_all_def)
  moreover have "sticky_all (\<lambda>_. True) m" for m by (simp add: sticky_all_def list_all_iff)
  ultimately show ?thesis by (simp add: all_reqs_def pending_def)
qed

text \<open>
  C10. A lost reply cannot pin a route: whatever the state of the tracker, after a message is routed at
  time \<open>now\<close> no request older than ten minutes is left in any container, and the same holds after
  the expiry that starts every \<open>Begin\<close>. A held request behind an expired head becomes the head.
\<close>

theorem no_stale_requests:
  "list_all (\<lambda>r. now - Created r \<le> requestTTL) (pending (fst (routeLocked now msg cm rt))) \<and>
   list_all (\<lambda>r. now - Created r \<le> requestTTL) (pending (expireLocked now rt))"
proof -
  have e: "all_reqs (\<lambda>r. \<not> stale now r) (\<lambda>r. \<not> stale now r) (\<lambda>_. True) (expireLocked now rt)"
    by (rule expire_fresh)
  obtain rt' ds where r: "first_route (route_attempts now msg cm) (expireLocked now rt) = (rt', ds)" by fastforce
  have "all_reqs (\<lambda>r. \<not> stale now r) (\<lambda>r. \<not> stale now r) (\<lambda>_. True) rt'"
    using fresh.first_route_ok [OF _ e r] fresh.attempts_ok by (simp add: route_attempts_def)
  then show ?thesis using e r by (simp add: routeLocked_def all_reqs_pending stale_def not_less)
qed

text \<open>
  C30. Dropping a client mixes up two exchanges: when the client whose LIST is in flight goes away, the
  LIST of the next client is released at once, although the first one is not over. The replies that
  are still to come for the first LIST go to the second client, the end of the first LIST ends the
  second client's request, and the replies to its own LIST then belong to nobody.
\<close>

theorem dropped_list_misroutes:
  assumes "ops = [OpBegin 1 (sample_opts ''A'' ''LIST''), OpBegin 2 (sample_opts ''B'' ''LIST''), OpDrop ''A'']"
    and "rt = fst (run tracker_step NewRequestTracker ops)"
  shows "ready rt = [mk_message [] ''LIST'' [''B'']] \<and>
    (let (rt1, d1) = routeLocked 3 (mk_message ''s'' ''322'' [''n'']) CaseRFC1459 rt;
         (rt2, d2) = routeLocked 4 (mk_message ''s'' ''323'' [''n'']) CaseRFC1459 rt1;
         (rt3, d3) = routeLocked 5 (mk_message ''s'' ''322'' [''n'']) CaseRFC1459 rt2
     in map dClient d1 = [''B''] \<and> map dClient d2 = [''B''] \<and> d3 = [])"
proof -
  let ?b = "list_request 2 ''B'' False"
  have "rt = DropClient ''A'' (list_state [list_request 1 ''A'' False, list_request 2 ''B'' True] [])"
    using assms run_append [of tracker_step NewRequestTracker "take 2 ops" "[OpDrop ''A'']"] two_lists
    by (simp split: prod.splits)
  also have "\<dots> = list_state [?b] [mk_message [] ''LIST'' [''B'']]"
    by (simp add: DropClient_def list_state_def NewRequestTracker_def drop_keyed_def drop_sticky_def list_request_def
        new_request_def sample_opts_def enqueueHeldWrite_def Let_def)
  finally have rt: "rt = list_state [?b] [mk_message [] ''LIST'' [''B'']]" .
  have f: "list_all (\<lambda>r. \<not> stale now r) [?b]" if "now < 10" for now
    using that by (simp add: stale_def requestTTL_def list_request_def new_request_def)
  have codes: "ReplyCodes ?b = replyCodesFor ''LIST'' []" "EndCodes ?b = endCodesFor ''LIST'' []"
    by (simp_all add: list_request_def new_request_def NewRequestTracker_def sample_opts_def)
  have lr: "list_reply (mk_message s ''322'' ps)" "list_reply (mk_message s ''323'' ps)" for s ps
    by (simp_all add: list_reply_def)
  have "routeLocked 5 (mk_message ''s'' ''322'' [''n'']) CaseRFC1459 (list_state [] out) = (list_state [] out, [])" for out
    using list_reply_serial [OF lr(1)] list_state_fresh [of 5 "[]" out]
    by (simp add: route_serial_def serialKindOrder_def list_state_def map_get_def)
  then show ?thesis
    using list_route [OF lr(1) f codes, of 3] list_route [OF lr(2) f codes, of 4]
    by (simp add: rt enqueueHeldWrite_def destsOf_def list_request_def new_request_def sample_opts_def)
      (simp add: list_state_def)
qed

theorem dropped_list_misroutes_witness:
  "ready (fst (run tracker_step NewRequestTracker
     [OpBegin 1 (sample_opts ''A'' ''LIST''), OpBegin 2 (sample_opts ''B'' ''LIST''), OpDrop ''A''])) =
   [mk_message [] ''LIST'' [''B'']]"
  using dropped_list_misroutes [OF refl refl] by blast

end
