(* ===== verification/Base64.thy ===== *)
theory Base64
  imports Go_Prelude
begin

text \<open>
  The part of Go's \<open>encoding/base64\<close> that SASL uses: \<open>StdEncoding\<close> with padding. Decoding skips CR and
  LF, refuses every other byte outside the alphabet and accepts padding only at the end.
\<close>

definition alphabet64 :: string where
  "alphabet64 = ''ABCDEFGHIJKLMNOPQRSTUVWXYZabcdefghijklmnopqrstuvwxyz0123456789+/''"

definition digit64 :: "nat \<Rightarrow> char" where "digit64 i = alphabet64 ! i"

definition byte_nat :: "char \<Rightarrow> nat" where "byte_nat c = of_char c"

fun encode64 :: "string \<Rightarrow> string" where
  "encode64 [] = []"
| "encode64 [a] =
     (let x = byte_nat a in [digit64 (x div 4), digit64 (x mod 4 * 16), CHR ''='', CHR ''=''])"
| "encode64 [a, b] =
     (let x = byte_nat a; y = byte_nat b
      in [digit64 (x div 4), digit64 (x mod 4 * 16 + y div 16), digit64 (y mod 16 * 4), CHR ''=''])"
| "encode64 (a # b # c # s) =
     (let x = byte_nat a; y = byte_nat b; z = byte_nat c
      in digit64 (x div 4) # digit64 (x mod 4 * 16 + y div 16) # digit64 (y mod 16 * 4 + z div 64) #
         digit64 (z mod 64) # encode64 s)"

definition value64 :: "char \<Rightarrow> nat option" where "value64 c = index_byte alphabet64 c"

definition byte1 :: "nat \<Rightarrow> nat \<Rightarrow> char" where "byte1 p q = char_of (p * 4 + q div 16)"
definition byte2 :: "nat \<Rightarrow> nat \<Rightarrow> char" where "byte2 q r = char_of (q mod 16 * 16 + r div 4)"
definition byte3 :: "nat \<Rightarrow> nat \<Rightarrow> char" where "byte3 r s = char_of (r mod 4 * 64 + s)"

fun decode_groups :: "string \<Rightarrow> string option" where
  "decode_groups [] = Some []"
| "decode_groups (a # b # c # d # s) =
     (case (value64 a, value64 b) of
        (Some p, Some q) \<Rightarrow>
          (case value64 c of
             None \<Rightarrow> if c = CHR ''='' \<and> d = CHR ''='' \<and> s = [] then Some [byte1 p q] else None
           | Some r \<Rightarrow>
               (case value64 d of
                  None \<Rightarrow> if d = CHR ''='' \<and> s = [] then Some [byte1 p q, byte2 q r] else None
                | Some t \<Rightarrow>
                    map_option (\<lambda>out. byte1 p q # byte2 q r # byte3 r t # out) (decode_groups s)))
      | _ \<Rightarrow> None)"
| "decode_groups _ = None"

definition decode64 :: "string \<Rightarrow> string option" where
  "decode64 s = decode_groups (filter (\<lambda>c. \<not> (c = CR \<or> c = LF)) s)"

section \<open>Round trip\<close>

lemma byte_nat_less: "byte_nat c < 256"
  by (simp add: byte_nat_def)

lemma char_of_byte_nat [simp]: "char_of (byte_nat c) = c"
  by (simp add: byte_nat_def)

lemma length_alphabet64 [simp]: "length alphabet64 = 64"
  by (simp add: alphabet64_def)

lemma distinct_alphabet64: "distinct alphabet64"
  by (simp add: alphabet64_def)

lemma index_byte_nth: "distinct xs \<Longrightarrow> i < length xs \<Longrightarrow> index_byte xs (xs ! i) = Some i"
proof (induction xs arbitrary: i)
  case Nil
  then show ?case by simp
next
  case (Cons x xs)
  then show ?case by (cases i) (auto simp: nth_mem)
qed

lemma value_digit64 [simp]: "i < 64 \<Longrightarrow> value64 (digit64 i) = Some i"
  by (simp add: value64_def digit64_def index_byte_nth distinct_alphabet64)

lemma value_pad [simp]: "value64 (CHR ''='') = None"
  by (simp add: value64_def alphabet64_def)

lemma digit64_plain: "i < 64 \<Longrightarrow> digit64 i \<in> set alphabet64"
  by (simp add: digit64_def)

lemma bytes_back:
  assumes "x < 256" and "y < 256" and "z < 256"
  shows "byte1 (x div 4) (x mod 4 * 16 + y div 16) = char_of x"
    and "byte1 (x div 4) (x mod 4 * 16) = char_of x"
    and "byte2 (x mod 4 * 16 + y div 16) (y mod 16 * 4 + z div 64) = char_of y"
    and "byte2 (x mod 4 * 16 + y div 16) (y mod 16 * 4) = char_of y"
    and "byte3 (y mod 16 * 4 + z div 64) (z mod 64) = char_of z"
proof -
  have "y div 16 < 16" "z div 64 < 4" using assms by auto
  then have "(x mod 4 * 16 + y div 16) div 16 = x mod 4" "(x mod 4 * 16 + y div 16) mod 16 = y div 16"
    "(y mod 16 * 4 + z div 64) div 4 = y mod 16" "(y mod 16 * 4 + z div 64) mod 4 = z div 64" by auto
  then show "byte1 (x div 4) (x mod 4 * 16 + y div 16) = char_of x"
    "byte1 (x div 4) (x mod 4 * 16) = char_of x"
    "byte2 (x mod 4 * 16 + y div 16) (y mod 16 * 4 + z div 64) = char_of y"
    "byte2 (x mod 4 * 16 + y div 16) (y mod 16 * 4) = char_of y"
    "byte3 (y mod 16 * 4 + z div 64) (z mod 64) = char_of z"
    by (simp_all add: byte1_def byte2_def byte3_def)
qed

lemma digits_less:
  assumes "x < 256" and "y < (256::nat)"
  shows "x div 4 < 64" "x mod 4 * 16 + y div 16 < 64" "x mod 4 * 16 < 64"
    "x mod 16 * 4 + y div 64 < 64" "x mod 16 * 4 < 64" "x mod 64 < 64"
  using assms by auto

lemma decode_groups_encode64: "decode_groups (encode64 s) = Some s"
proof (induction s rule: encode64.induct)
  case (2 a)
  then show ?case
    using bytes_back(2) [of "byte_nat a" 0 0] digits_less [of "byte_nat a" 0] byte_nat_less [of a] by (simp add: Let_def)
next
  case (3 a b)
  then show ?case
    using bytes_back(1,4) [of "byte_nat a" "byte_nat b" 0] digits_less [of "byte_nat a" "byte_nat b"]
      digits_less(5) [of "byte_nat b" 0] byte_nat_less [of a] byte_nat_less [of b] by (simp add: Let_def)
next
  case (4 a b c s)
  then show ?case
    using bytes_back(1,3,5) [of "byte_nat a" "byte_nat b" "byte_nat c"] digits_less [of "byte_nat a" "byte_nat b"]
      digits_less(4) [of "byte_nat b" "byte_nat c"] digits_less(6) [of "byte_nat c" 0] byte_nat_less [of a]
      byte_nat_less [of b] byte_nat_less [of c] by (simp add: Let_def)
qed simp

lemma encode64_chars: "set (encode64 s) \<subseteq> set alphabet64 \<union> {CHR ''=''}"
proof (induction s rule: encode64.induct)
  case (2 a)
  then show ?case
    using digits_less [of "byte_nat a" 0] byte_nat_less [of a] by (auto simp: Let_def intro: digit64_plain)
next
  case (3 a b)
  then show ?case
    using digits_less [of "byte_nat a" "byte_nat b"] digits_less(5) [of "byte_nat b" 0] byte_nat_less [of a]
      byte_nat_less [of b] by (auto simp: Let_def intro: digit64_plain)
next
  case (4 a b c s)
  then show ?case
    using digits_less [of "byte_nat a" "byte_nat b"] digits_less(4) [of "byte_nat b" "byte_nat c"]
      digits_less(6) [of "byte_nat c" 0] byte_nat_less [of a] byte_nat_less [of b] byte_nat_less [of c]
    by (auto simp: Let_def intro: digit64_plain)
qed simp

lemma decode64_encode64: "decode64 (encode64 s) = Some s"
proof -
  have "CR \<notin> set alphabet64 \<union> {CHR ''=''}" "LF \<notin> set alphabet64 \<union> {CHR ''=''}" by (simp_all add: alphabet64_def)
  then have "filter (\<lambda>c. \<not> (c = CR \<or> c = LF)) (encode64 s) = encode64 s"
    using encode64_chars [of s] by (auto simp: filter_id_conv)
  then show ?thesis by (simp add: decode64_def decode_groups_encode64)
qed

lemma four_dvd: "4 dvd Suc (Suc (Suc (Suc n))) \<longleftrightarrow> 4 dvd n"
  by presburger

lemma length_encode64: "4 dvd length (encode64 s)"
  by (induction s rule: encode64.induct) (simp_all add: Let_def four_dvd)

lemma encode64_Nil [simp]: "encode64 s = [] \<longleftrightarrow> s = []"
  by (cases s rule: encode64.cases) (auto simp: Let_def)

end
