(* ===== verification/Registration.thy ===== *)
theory Registration
  imports IRC_Isupport Base64
begin

text \<open>
  The registration state machine (\<open>src/internal/registration\<close>: \<open>registration.go\<close>, \<open>sasl.go\<close> and
  \<open>nick.go\<close>): capability negotiation, SASL, the ladder of nicks and the welcome burst.

  SCRAM is a third-party package: a conversation has a type of its own, and the two operations that
  are called on it are the fields of the record \<open>scram\<close>, an argument of the steps. A new conversation draws a random
  nonce; the text it draws while a line is handled is a field of the input. The state holds
  maps and the ISUPPORT table by reference in the code; every step replaces its state, so they are
  values here.
\<close>

section \<open>State, inputs and actions\<close>

definition DesiredCaps :: "string list" where
  "DesiredCaps = [''cap-notify'', ''message-tags'', ''server-time'', ''batch'', ''labeled-response'', ''account-tag'',
     ''account-notify'', ''extended-join'', ''echo-message'', ''away-notify'', ''chghost'', ''invite-notify'', ''sasl'',
     ''chathistory'', ''draft/chathistory'']"

datatype Phase = PhaseCAPNegotiation | PhaseAuthenticating | PhaseAwaitingWelcome | PhaseComplete | PhaseFailed

record SASLConfig =
  Wanted :: bool
  Required :: bool
  User :: string
  Pass :: string
  HasClientCert :: bool

datatype reg_error =
    ServerError string
  | SASLOutcome string "string list"
  | NoSupportedMechanism string
  | MissingCredentials string
  | BadChallengeEncoding
  | UnexpectedMechanism string
  | ScramError string
  | NickFailure string "string list"

record 'c scram =
  scramNew :: "string \<Rightarrow> string \<Rightarrow> string \<Rightarrow> string + 'c"
  scramStep :: "'c \<Rightarrow> string \<Rightarrow> 'c \<times> (string + string)"

record 'c regState =
  phase :: Phase
  regNick :: string
  PrimaryNick :: string
  AltNick :: string
  nickRecovery :: bool
  SASL :: SASLConfig
  saslMech :: string
  scramConv :: "'c option"
  Offered :: "(string, string) gomap"
  Acked :: "(string, bool) gomap"
  RPL002 :: "string list"
  RPL003 :: "string list"
  RPL004 :: "string list"
  regISUPPORT :: ISUPPORT
  GotWelcome :: bool
  regErr :: "reg_error option"

definition reg_New :: "string \<Rightarrow> string \<Rightarrow> bool \<Rightarrow> SASLConfig \<Rightarrow> 'c regState" where
  "reg_New primary alt recovery sasl =
     \<lparr>phase = PhaseCAPNegotiation, regNick = primary, PrimaryNick = primary, AltNick = alt,
      nickRecovery = recovery, SASL = sasl, saslMech = [], scramConv = None, Offered = [], Acked = [],
      RPL002 = [], RPL003 = [], RPL004 = [], regISUPPORT = NewISUPPORT, GotWelcome = False, regErr = None\<rparr>"

datatype ActionKind = ActionSend | ActionRegistered | ActionFailed

record Action =
  aKind :: ActionKind
  aLine :: string
  aErr :: "reg_error option"
  aReplay :: bool

record Input =
  inMsg :: message
  inReplay :: bool
  inNonce :: string

definition send :: "Input \<Rightarrow> string \<Rightarrow> Action" where
  "send i line = \<lparr>aKind = ActionSend, aLine = line, aErr = None, aReplay = inReplay i\<rparr>"

definition failed :: "Input \<Rightarrow> reg_error \<Rightarrow> Action" where
  "failed i err = \<lparr>aKind = ActionFailed, aLine = [], aErr = Some err, aReplay = inReplay i\<rparr>"

definition registered :: "Input \<Rightarrow> Action" where
  "registered i = \<lparr>aKind = ActionRegistered, aLine = [], aErr = None, aReplay = inReplay i\<rparr>"

definition Start :: "string \<Rightarrow> string \<Rightarrow> string \<Rightarrow> string \<Rightarrow> bool \<Rightarrow> Action list" where
  "Start nick pass username realname replay =
     (if replay then []
      else let user = (if username = [] then ''gobnc'' else username);
               real = (if realname = [] then ''GoBNC'' else realname);
               live = \<lparr>inMsg = empty_message, inReplay = False, inNonce = []\<rparr>
           in [send live ''CAP LS 302''] @ (if pass \<noteq> [] then [send live (''PASS '' @ pass)] else []) @
              [send live (''NICK '' @ nick), send live (''USER '' @ user @ '' 0 * :'' @ real)])"

section \<open>SASL\<close>

definition authenticateChunkSize :: nat where "authenticateChunkSize = 400"

definition end_sasl :: "'c regState \<Rightarrow> 'c regState" where
  "end_sasl s = s\<lparr>saslMech := [], scramConv := None\<rparr>"

definition fail :: "'c regState \<Rightarrow> reg_error \<Rightarrow> 'c regState" where
  "fail s err = s\<lparr>phase := PhaseFailed, regErr := Some err\<rparr>"

definition cap_end :: "'c regState \<Rightarrow> Input \<Rightarrow> 'c regState \<times> Action list" where
  "cap_end s i = (s\<lparr>phase := PhaseAwaitingWelcome\<rparr>, [send i ''CAP END''])"

definition stepSASLOutcome :: "'c regState \<Rightarrow> Input \<Rightarrow> 'c regState \<times> Action list" where
  "stepSASLOutcome s0 i =
     (let s = end_sasl s0; msg = inMsg i
      in if GotWelcome s then (s, [])
         else if Command msg \<noteq> ''903'' \<and> Command msg \<noteq> ''907'' \<and> Required (SASL s)
         then let err = SASLOutcome (Command msg) (Params msg) in (fail s err, [failed i err])
         else cap_end s i)"

definition offered_mechs :: "'c regState \<Rightarrow> string list" where
  "offered_mechs s =
     (let raw = map_get [] (Offered s) ''sasl''
      in if raw \<noteq> [] then filter (\<lambda>m. m \<noteq> []) (map trim_space (split_byte (CHR '','') raw)) else [])"

definition pickSASLMech :: "'c regState \<Rightarrow> string option" where
  "pickSASLMech s =
     (let cfg = SASL s;
          passwordOK = (User cfg \<noteq> [] \<and> Pass cfg \<noteq> []);
          externalOK = (Pass cfg = [] \<and> HasClientCert cfg)
      in if \<not> Wanted cfg then None
         else if \<not> passwordOK \<and> \<not> externalOK then None
         else let preferred = (if passwordOK then [''SCRAM-SHA-256'', ''PLAIN''] else [''EXTERNAL'']);
                  mechs = offered_mechs s
              in if mechs = [] then (if passwordOK then Some ''PLAIN'' else Some ''EXTERNAL'')
                 else find (\<lambda>want. list_ex (\<lambda>m. equal_fold m want) mechs) preferred)"

definition startSASL :: "'c regState \<Rightarrow> Input \<Rightarrow> 'c regState \<times> Action list" where
  "startSASL s i =
     (case pickSASLMech s of
        None \<Rightarrow>
          if Required (SASL s)
          then let err = NoSupportedMechanism (map_get [] (Offered s) ''sasl'') in (fail s err, [failed i err])
          else cap_end s i
      | Some mech \<Rightarrow>
          (s\<lparr>phase := PhaseAuthenticating, saslMech := mech, scramConv := None\<rparr>, [send i (''AUTHENTICATE '' @ mech)]))"

definition abortSASL :: "'c regState \<Rightarrow> Input \<Rightarrow> reg_error \<Rightarrow> 'c regState \<times> Action list" where
  "abortSASL s0 i err =
     (let s = end_sasl s0; act = send i ''AUTHENTICATE *''
      in if GotWelcome s then (s, [act])
         else if Required (SASL s) then (fail s err, [act, failed i err])
         else (s\<lparr>phase := PhaseAwaitingWelcome\<rparr>, [act, send i ''CAP END'']))"

text \<open>The lines of the chunking loop.\<close>

function auth_chunks :: "string \<Rightarrow> string list" where
  "auth_chunks b64 =
     (if length b64 > authenticateChunkSize
      then (''AUTHENTICATE '' @ take authenticateChunkSize b64) # auth_chunks (drop authenticateChunkSize b64)
      else (''AUTHENTICATE '' @ b64) #
           (if length b64 = authenticateChunkSize then [''AUTHENTICATE +''] else []))"
  by auto
termination by (relation "measure length") (auto simp: authenticateChunkSize_def)

declare auth_chunks.simps [simp del]

definition sendAuthenticate :: "'c regState \<Rightarrow> Input \<Rightarrow> string \<Rightarrow> 'c regState \<times> Action list" where
  "sendAuthenticate s i b64 =
     (s, if b64 = [] \<or> b64 = ''+'' then [send i ''AUTHENTICATE +''] else map (send i) (auth_chunks b64))"

definition stepSCRAM :: "'c scram \<Rightarrow> 'c regState \<Rightarrow> Input \<Rightarrow> string \<Rightarrow> 'c regState \<times> Action list" where
  "stepSCRAM sc s i param =
     (if User (SASL s) = [] \<or> Pass (SASL s) = [] then abortSASL s i (MissingCredentials ''SCRAM-SHA-256'')
      else (case (if param \<noteq> ''+'' then decode64 param else Some []) of
              None \<Rightarrow> abortSASL s i BadChallengeEncoding
            | Some challenge \<Rightarrow>
                (case (case scramConv s of Some conv \<Rightarrow> Inr conv
                       | None \<Rightarrow> scramNew sc (User (SASL s)) (Pass (SASL s)) (inNonce i)) of
                   Inl err \<Rightarrow> abortSASL s i (ScramError err)
                 | Inr conv \<Rightarrow>
                     (case scramStep sc conv challenge of
                        (conv1, Inl err) \<Rightarrow> abortSASL (s\<lparr>scramConv := Some conv1\<rparr>) i (ScramError err)
                      | (conv1, Inr resp) \<Rightarrow>
                          let s1 = s\<lparr>scramConv := Some conv1\<rparr>
                          in if resp = [] then sendAuthenticate s1 i ''+''
                             else sendAuthenticate s1 i (encode64 resp)))))"

definition stepAuthenticate :: "'c scram \<Rightarrow> 'c regState \<Rightarrow> Input \<Rightarrow> 'c regState \<times> Action list" where
  "stepAuthenticate sc s i =
     (let param = Param (inMsg i) 0; mech = saslMech s
      in if param = [] then (s, [])
         else if param = ''*'' then (end_sasl s, [])
         else if mech = [] then (s, [])
         else if to_upper mech = ''PLAIN''
         then if param \<noteq> ''+'' then (s, [])
              else if User (SASL s) = [] \<or> Pass (SASL s) = [] then abortSASL s i (MissingCredentials ''PLAIN'')
              else sendAuthenticate s i (encode64 ([NUL] @ User (SASL s) @ [NUL] @ Pass (SASL s)))
         else if to_upper mech = ''EXTERNAL''
         then if param \<noteq> ''+'' then (s, [])
              else if User (SASL s) = [] then sendAuthenticate s i ''+''
              else sendAuthenticate s i (encode64 (User (SASL s)))
         else if to_upper mech = ''SCRAM-SHA-256'' then stepSCRAM sc s i param
         else abortSASL s i (UnexpectedMechanism mech))"

section \<open>The ladder of nicks\<close>

definition defaultNickLen :: int where "defaultNickLen = 30"
definition maxUnderscoreTries :: int where "maxUnderscoreTries = 20"

text \<open>\<open>strconv.Atoi\<close>: an optional sign, digits only, within 64 bits.\<close>

fun digits_value :: "nat \<Rightarrow> string \<Rightarrow> nat" where
  "digits_value acc [] = acc"
| "digits_value acc (c # cs) = digits_value (acc * 10 + (of_char c - 48)) cs"

definition Atoi :: "string \<Rightarrow> int option" where
  "Atoi s =
     (let neg = has_prefix s ''-'';
          ds = (if neg \<or> has_prefix s ''+'' then tl s else s);
          v = (if neg then - int (digits_value 0 ds) else int (digits_value 0 ds))
      in if ds \<noteq> [] \<and> list_all is_digit_byte ds \<and> - (2 ^ 63) \<le> v \<and> v < 2 ^ 63 then Some v else None)"

text \<open>The closure \<open>add\<close>: the keys seen and the nicks collected.\<close>

definition ladder_add :: "int \<Rightarrow> string \<Rightarrow> string list \<times> string list \<Rightarrow> string list \<times> string list" where
  "ladder_add maxLen nick acc =
     (case acc of (seen, out) \<Rightarrow>
        if nick = [] then acc
        else let n = (if int (length nick) > maxLen then take (nat maxLen) nick else nick); key = to_lower n
             in if key \<in> set seen then acc else (seen @ [key], out @ [n]))"

function ladder_loop :: "string \<Rightarrow> int \<Rightarrow> int \<Rightarrow> string list \<times> string list \<Rightarrow> string list \<times> string list" where
  "ladder_loop primary maxLen i acc =
     (if i \<le> maxUnderscoreTries \<and> i < maxLen
      then let room = maxLen - i;
               base = (if int (length primary) > room then take (nat room) primary else primary)
           in if room < 1 then acc
              else ladder_loop primary maxLen (i + 1) (ladder_add maxLen (base @ replicate (nat i) (CHR ''_'')) acc)
      else acc)"
  by auto
termination by (relation "measure (\<lambda>(_, _, i, _). nat (maxUnderscoreTries + 1 - i))") auto

declare ladder_loop.simps [simp del]

definition buildNickLadder :: "string \<Rightarrow> string \<Rightarrow> int \<Rightarrow> string list" where
  "buildNickLadder primary alt maxLen0 =
     (let maxLen = (if maxLen0 \<le> 0 then defaultNickLen else maxLen0)
      in snd (ladder_loop primary maxLen 1 (ladder_add maxLen alt (ladder_add maxLen primary ([], [])))))"

text \<open>The scan keeps the last position that matches.\<close>

fun ladder_index :: "CaseMapping \<Rightarrow> string \<Rightarrow> string \<Rightarrow> nat \<Rightarrow> string list \<Rightarrow> nat option \<Rightarrow> nat option" where
  "ladder_index cm prev bad i [] idx = idx"
| "ladder_index cm prev bad i (n # ns) idx =
     ladder_index cm prev bad (i + 1) ns (if Equal cm n prev \<or> Equal cm n bad then Some i else idx)"

definition nextNickInLadder :: "string list \<Rightarrow> string \<Rightarrow> string \<Rightarrow> CaseMapping \<Rightarrow> string" where
  "nextNickInLadder ladder prev bad cm =
     (case ladder_index cm prev bad 0 ladder None of
        None \<Rightarrow> if length ladder > 1 then ladder ! 1 else []
      | Some idx \<Rightarrow> if idx + 1 < length ladder then ladder ! (idx + 1) else [])"

definition nick_len :: "'c regState \<Rightarrow> int" where
  "nick_len s =
     (let v = map_get [] (isRaw (regISUPPORT s)) ''NICKLEN''
      in if v \<noteq> [] then (case Atoi v of Some nl \<Rightarrow> if nl > 0 then nl else defaultNickLen | None \<Rightarrow> defaultNickLen)
         else defaultNickLen)"

definition nextLadderNick :: "'c regState \<Rightarrow> string \<Rightarrow> string option" where
  "nextLadderNick s bad =
     (if \<not> nickRecovery s then None
      else let next = nextNickInLadder (buildNickLadder (PrimaryNick s) (AltNick s) (nick_len s)) (regNick s) bad
                        (isCaseMapping (regISUPPORT s))
           in if next \<noteq> [] then Some next else None)"

definition stepNickError :: "'c regState \<Rightarrow> Input \<Rightarrow> 'c regState \<times> Action list" where
  "stepNickError s i =
     (let msg = inMsg i
      in if GotWelcome s then (s, [])
         else if Command msg = ''437'' \<and> Param msg 0 \<noteq> ''*'' then (s, [])
         else case nextLadderNick s (Param msg 1) of
                None \<Rightarrow> let err = NickFailure (Command msg) (Params msg) in (fail s err, [failed i err])
              | Some next \<Rightarrow> (s\<lparr>regNick := next\<rparr>, [send i (''NICK '' @ next)]))"

section \<open>Step\<close>

definition welcomeTail :: "string list \<Rightarrow> string list" where
  "welcomeTail params = (if length params \<le> 1 then [] else tl params)"

definition offer_tokens :: "string \<Rightarrow> (string, string) gomap \<Rightarrow> (string, string) gomap" where
  "offer_tokens txtl m =
     fold (\<lambda>tok m. case cut_byte (CHR ''='') tok of (name, val, _) \<Rightarrow> map_put name val m) (Fields txtl) m"

definition cap_name :: "string \<Rightarrow> string" where
  "cap_name raw = fst (cut_byte (CHR ''='') (trim_prefix raw ''-''))"

definition ack_tokens :: "string \<Rightarrow> (string, bool) gomap \<Rightarrow> (string, bool) gomap" where
  "ack_tokens txtl m = fold (\<lambda>raw m. map_put (cap_name raw) True m) (Fields txtl) m"

definition stepCAP :: "'c regState \<Rightarrow> Input \<Rightarrow> 'c regState \<times> Action list" where
  "stepCAP s i =
     (let msg = inMsg i; params = Params msg
      in if length params < 2 then (s, [])
         else let sub = to_upper (params ! 1); txtl = Trailing msg
           in if sub = ''LS''
              then let s1 = s\<lparr>Offered := offer_tokens txtl (Offered s)\<rparr>
                   in if length params \<ge> 3 \<and> params ! 2 = ''*'' then (s1, [])
                      else let req = filter (\<lambda>want. \<not> (want = ''sasl'' \<and> \<not> Wanted (SASL s1)) \<and>
                                               map_of (Offered s1) want \<noteq> None) DesiredCaps
                           in if length req = 0 then cap_end s1 i
                              else (s1, [send i (''CAP REQ :'' @ join '' '' req)])
              else if sub = ''ACK''
              then let s1 = s\<lparr>Acked := ack_tokens txtl (Acked s)\<rparr>;
                       acked = list_ex (\<lambda>raw. cap_name raw = ''sasl'') (Fields txtl)
                   in if Wanted (SASL s1) \<and> acked then startSASL s1 i else cap_end s1 i
              else if sub = ''NAK'' then cap_end s i
              else (s, []))"

definition Step :: "'c scram \<Rightarrow> 'c regState \<Rightarrow> Input \<Rightarrow> 'c regState \<times> Action list" where
  "Step sc s i =
     (let msg = inMsg i; cmd = Command msg
      in if phase s = PhaseComplete \<or> phase s = PhaseFailed then (s, [])
         else if cmd = ''CAP'' then stepCAP s i
         else if cmd = ''AUTHENTICATE'' then stepAuthenticate sc s i
         else if cmd = ''900'' then (s, [])
         else if cmd \<in> set [''903'', ''904'', ''905'', ''906'', ''907''] then stepSASLOutcome s i
         else if cmd = ''001''
         then let s1 = s\<lparr>GotWelcome := True\<rparr>;
                  s2 = (if length (Params msg) > 0 then s1\<lparr>regNick := hd (Params msg)\<rparr> else s1)
              in (if phase s2 = PhaseCAPNegotiation then s2\<lparr>phase := PhaseAwaitingWelcome\<rparr> else s2, [])
         else if cmd = ''002'' then (s\<lparr>RPL002 := welcomeTail (Params msg)\<rparr>, [])
         else if cmd = ''003'' then (s\<lparr>RPL003 := welcomeTail (Params msg)\<rparr>, [])
         else if cmd = ''004'' then (s\<lparr>RPL004 := welcomeTail (Params msg)\<rparr>, [])
         else if cmd = ''005'' then (s\<lparr>regISUPPORT := Parse005 (regISUPPORT s) (Params msg)\<rparr>, [])
         else if cmd \<in> set [''375'', ''372''] then (s, [])
         else if cmd \<in> set [''376'', ''422'']
         then if \<not> GotWelcome s then (s, []) else (s\<lparr>phase := PhaseComplete\<rparr>, [registered i])
         else if cmd \<in> set [''432'', ''433'', ''437''] then stepNickError s i
         else if cmd = ''ERROR''
         then let err = ServerError (Trailing msg) in (fail s err, [failed i err])
         else (s, []))"

definition post_ACK :: "'c regState \<Rightarrow> Input \<Rightarrow> 'c regState \<times> Action list" where
  "post_ACK s i =
     (let txtl = Trailing (inMsg i);
          toks = Fields txtl;
          offered = fold (\<lambda>raw m. case cut_byte (CHR ''='') (trim_prefix raw ''-'') of (name, val, _) \<Rightarrow>
                       if name = ''sasl'' \<and> val \<noteq> [] then map_put name val m else m) toks (Offered s);
          s1 = s\<lparr>Acked := ack_tokens txtl (Acked s), Offered := offered\<rparr>;
          acked = list_ex (\<lambda>raw. cap_name raw = ''sasl'') toks
      in if \<not> acked \<or> \<not> Wanted (SASL s1) \<or> saslMech s1 \<noteq> [] then (s1, [])
         else case pickSASLMech s1 of
                None \<Rightarrow> (s1, [])
              | Some mech \<Rightarrow> (s1\<lparr>saslMech := mech, scramConv := None\<rparr>, [send i (''AUTHENTICATE '' @ mech)]))"

definition StepPost :: "'c scram \<Rightarrow> 'c regState \<Rightarrow> Input \<Rightarrow> 'c regState \<times> Action list" where
  "StepPost sc s i =
     (let msg = inMsg i; cmd = Command msg
      in if phase s \<noteq> PhaseComplete then (s, [])
         else if cmd = ''CAP''
         then if length (Params msg) < 2 then (s, [])
              else let sub = to_upper (Params msg ! 1); toks = Fields (Trailing msg)
                in if sub = ''NEW'' then (s\<lparr>Offered := offer_tokens (Trailing msg) (Offered s)\<rparr>, [])
                   else if sub = ''DEL''
                   then (s\<lparr>Offered := fold (\<lambda>tok. map_del (fst (cut_byte (CHR ''='') tok))) toks (Offered s),
                            Acked := fold (\<lambda>tok. map_del (fst (cut_byte (CHR ''='') tok))) toks (Acked s)\<rparr>, [])
                   else if sub = ''ACK'' then post_ACK s i
                   else (s, [])
         else if cmd = ''AUTHENTICATE'' then stepAuthenticate sc s i
         else if cmd \<in> set [''903'', ''904'', ''905'', ''906'', ''907''] then stepSASLOutcome s i
         else (s, []))"

text \<open>The dispatch in the driver's \<open>handleLine\<close>.\<close>

definition drive :: "'c scram \<Rightarrow> 'c regState \<Rightarrow> Input \<Rightarrow> 'c regState \<times> Action list" where
  "drive sc s i = (if phase s = PhaseComplete then StepPost sc s i else Step sc s i)"

end
