(* ===== verification/Registration_Props.thy ===== *)
theory Registration_Props
  imports Registration
begin

text \<open>
  Properties of the registration machine: what it does does not depend on whether a transcript is
  replayed, it reaches one verdict and says so once, an authentication payload arrives whole, the
  ladder of nicks is climbed without a repetition and ends, and the steps after registration leave
  the verdict alone.
\<close>

section \<open>Replay\<close>

definition as_replay :: "bool \<Rightarrow> Input \<Rightarrow> Input" where
  "as_replay b i = i\<lparr>inReplay := b\<rparr>"

definition mark_actions :: "bool \<Rightarrow> 's \<times> Action list \<Rightarrow> 's \<times> Action list" where
  "mark_actions b r = (fst r, map (\<lambda>a. a\<lparr>aReplay := b\<rparr>) (snd r))"

named_theorems replay

lemma inMsg_as_replay [simp]: "inMsg (as_replay b i) = inMsg i" "inNonce (as_replay b i) = inNonce i"
  by (simp_all add: as_replay_def)

lemma mark_actions_pair [simp]: "mark_actions b (s, as) = (s, map (\<lambda>a. a\<lparr>aReplay := b\<rparr>) as)"
  by (simp add: mark_actions_def)

lemma action_as_replay [simp]:
  "send (as_replay b i) l = (send i l)\<lparr>aReplay := b\<rparr>"
  "failed (as_replay b i) e = (failed i e)\<lparr>aReplay := b\<rparr>"
  "registered (as_replay b i) = (registered i)\<lparr>aReplay := b\<rparr>"
  by (simp_all add: send_def failed_def registered_def as_replay_def)

lemma cap_end_replay [replay]: "cap_end s (as_replay b i) = mark_actions b (cap_end s i)"
  by (simp add: cap_end_def)

lemma stepSASLOutcome_replay [replay]:
  "stepSASLOutcome s (as_replay b i) = mark_actions b (stepSASLOutcome s i)"
  by (simp add: stepSASLOutcome_def Let_def replay)

lemma startSASL_replay [replay]: "startSASL s (as_replay b i) = mark_actions b (startSASL s i)"
  by (simp add: startSASL_def Let_def replay split: option.split)

lemma abortSASL_replay [replay]: "abortSASL s (as_replay b i) e = mark_actions b (abortSASL s i e)"
  by (simp add: abortSASL_def Let_def)

lemma sendAuthenticate_replay [replay]:
  "sendAuthenticate s (as_replay b i) b64 = mark_actions b (sendAuthenticate s i b64)"
  by (simp add: sendAuthenticate_def)

lemma stepSCRAM_replay [replay]: "stepSCRAM sc s (as_replay b i) p = mark_actions b (stepSCRAM sc s i p)"
  by (simp add: stepSCRAM_def Let_def replay split: option.split sum.split prod.split)

lemma stepAuthenticate_replay [replay]:
  "stepAuthenticate sc s (as_replay b i) = mark_actions b (stepAuthenticate sc s i)"
  by (simp add: stepAuthenticate_def Let_def replay)

lemma stepNickError_replay [replay]: "stepNickError s (as_replay b i) = mark_actions b (stepNickError s i)"
  by (simp add: stepNickError_def Let_def split: option.split)

lemma stepCAP_replay [replay]: "stepCAP s (as_replay b i) = mark_actions b (stepCAP s i)"
  by (simp add: stepCAP_def Let_def replay)

lemma Step_replay [replay]: "Step sc s (as_replay b i) = mark_actions b (Step sc s i)"
  by (simp add: Step_def Let_def replay)

lemma run_replay:
  assumes "\<And>s i. step s (as_replay b i) = mark_actions b (step s i)"
  shows "run step s (map (as_replay b) ins) = mark_actions b (run step s ins)"
proof (induction ins arbitrary: s)
  case (Cons i ins)
  then show ?case by (simp add: assms split: prod.split)
qed simp

text \<open>The lines that are sent, and a line of the server.\<close>

definition sent_lines :: "Action list \<Rightarrow> string list" where
  "sent_lines as = map aLine (filter (\<lambda>a. aKind a = ActionSend) as)"

lemma sent_lines_simps [simp]:
  "sent_lines [] = []" "sent_lines (as @ bs) = sent_lines as @ sent_lines bs"
  "sent_lines (send i l # as) = l # sent_lines as" "sent_lines (failed i e # as) = sent_lines as"
  by (simp_all add: sent_lines_def send_def failed_def)

definition server_line :: "string \<Rightarrow> string list \<Rightarrow> Input" where
  "server_line cmd params = \<lparr>inMsg = empty_message\<lparr>Command := cmd, Params := params\<rparr>, inReplay = False, inNonce = []\<rparr>"

text \<open>Another draw for the same line.\<close>

definition redraw :: "string \<Rightarrow> Input \<Rightarrow> Input" where
  "redraw r i = i\<lparr>inNonce := r\<rparr>"

named_theorems draws

lemma redraw_simps [simp]:
  "inMsg (redraw r i) = inMsg i" "send (redraw r i) l = send i l" "failed (redraw r i) e = failed i e"
  "registered (redraw r i) = registered i"
  by (simp_all add: redraw_def send_def failed_def registered_def)

lemma redraw_parts [draws]:
  "cap_end s (redraw r i) = cap_end s i" "stepSASLOutcome s (redraw r i) = stepSASLOutcome s i"
  "startSASL s (redraw r i) = startSASL s i" "abortSASL s (redraw r i) e = abortSASL s i e"
  "sendAuthenticate s (redraw r i) b64 = sendAuthenticate s i b64" "stepNickError s (redraw r i) = stepNickError s i"
  by (simp_all add: cap_end_def stepSASLOutcome_def startSASL_def abortSASL_def sendAuthenticate_def stepNickError_def Let_def
      split: option.split)

definition in_scram :: "'c regState \<Rightarrow> bool" where
  "in_scram s \<longleftrightarrow> to_upper (saslMech s) = ''SCRAM-SHA-256''"

lemma redraw_stepCAP: "stepCAP s (redraw r i) = stepCAP s i"
  by (simp only: stepCAP_def redraw_simps redraw_parts)

lemma redraw_stepAuthenticate: "\<not> in_scram s \<Longrightarrow> stepAuthenticate sc s (redraw r i) = stepAuthenticate sc s i"
  by (simp only: stepAuthenticate_def Let_def redraw_simps redraw_parts in_scram_def if_False)

lemma redraw_Step:
  assumes "\<not> in_scram s"
  shows "Step sc s (redraw r i) = Step sc s i"
  unfolding Step_def redraw_simps redraw_parts redraw_stepCAP redraw_stepAuthenticate [OF assms] ..

definition scram_line :: string where "scram_line = ''AUTHENTICATE SCRAM-SHA-256''"

lemma upper_mechs [simp]:
  "to_upper [] = []" "to_upper ''PLAIN'' = ''PLAIN''" "to_upper ''EXTERNAL'' = ''EXTERNAL''" "to_upper ''SCRAM-SHA-256'' = ''SCRAM-SHA-256''"
  by code_simp+

lemma pick_not_scram:
  "pickSASLMech s = Some mech \<Longrightarrow> mech \<in> {''SCRAM-SHA-256'', ''PLAIN'', ''EXTERNAL''}"
  by (auto simp: pickSASLMech_def Let_def split: if_splits)

text \<open>An exchange with SCRAM starts with its line.\<close>

lemma scram_starts_line:
  assumes "\<not> in_scram s" and "in_scram (fst (Step sc s i))"
  shows "scram_line \<in> set (sent_lines (snd (Step sc s i)))"
proof -
  have start: "in_scram (fst (startSASL s1 i)) \<Longrightarrow> scram_line \<in> set (sent_lines (snd (startSASL s1 i)))"
    if "\<not> in_scram s1" for s1 :: "'a regState"
    using that pick_not_scram [of s1]
    by (auto simp: startSASL_def in_scram_def scram_line_def cap_end_def fail_def Let_def split: option.splits if_splits)
  have abort: "\<not> in_scram (fst (abortSASL s1 i e))" for s1 :: "'a regState" and e
    by (simp add: abortSASL_def in_scram_def end_sasl_def fail_def Let_def)
  have auth: "\<not> in_scram (fst (stepAuthenticate sc s i))"
    using assms(1) abort
    by (auto simp: stepAuthenticate_def in_scram_def end_sasl_def sendAuthenticate_def Let_def)
  have cap: "in_scram (fst (stepCAP s i)) \<Longrightarrow> scram_line \<in> set (sent_lines (snd (stepCAP s i)))"
    using assms(1) start [of "s\<lparr>Acked := ack_tokens (Trailing (inMsg i)) (Acked s)\<rparr>"]
    by (auto simp: stepCAP_def in_scram_def cap_end_def Let_def split: if_splits)
  have "\<not> in_scram (fst (stepSASLOutcome s i))"
    by (simp add: stepSASLOutcome_def in_scram_def end_sasl_def fail_def cap_end_def Let_def)
  moreover have "\<not> in_scram (fst (stepNickError s i))"
    using assms(1) by (simp add: stepNickError_def in_scram_def fail_def Let_def split: option.split)
  ultimately show ?thesis
    using assms auth cap
    by (auto simp: Step_def in_scram_def fail_def Let_def split: if_splits)
qed

lemma run_redraw:
  assumes "\<not> in_scram s" and "length rs = length ins" and "scram_line \<notin> set (sent_lines (snd (run (Step sc) s ins)))"
  shows "run (Step sc) s (map2 redraw rs ins) = run (Step sc) s ins"
  using assms
proof (induction ins arbitrary: s rs)
  case (Cons i ins)
  obtain r rs' where rs: "rs = r # rs'" "length rs' = length ins" using Cons.prems(2) by (cases rs) auto
  obtain s1 as1 where 1: "Step sc s i = (s1, as1)" by fastforce
  have "scram_line \<notin> set (sent_lines as1)" "scram_line \<notin> set (sent_lines (snd (run (Step sc) s1 ins)))"
    using Cons.prems(3) 1 by (auto split: prod.splits)
  moreover from this(1) have "\<not> in_scram s1" using scram_starts_line [OF Cons.prems(1), of sc i] 1 by auto
  ultimately show ?case
    using Cons.IH [of s1 rs'] rs 1 redraw_Step [OF Cons.prems(1), of sc r i] by simp
qed simp

text \<open>
  C31. Driving the machine with a transcript marked as replayed reaches the same state as driving it
  live, and asks for the same actions in the same order, with only the replay mark on them changed. This holds for
  a conversation that draws the nonce it drew live; and for whatever it draws, when the live run did not start an exchange
  with SCRAM.
\<close>

theorem replay_identical_to_live:
  "run (Step sc) s (map (as_replay b) ins) = mark_actions b (run (Step sc) s ins) \<and>
   (\<not> in_scram s \<and> length rs = length ins \<and> scram_line \<notin> set (sent_lines (snd (run (Step sc) s ins))) \<longrightarrow>
      run (Step sc) s (map (as_replay b) (map2 redraw rs ins)) = mark_actions b (run (Step sc) s ins))"
proof -
  have "run (Step sc) s (map (as_replay b) is) = mark_actions b (run (Step sc) s is)" for "is"
    by (rule run_replay) (rule Step_replay)
  then show ?thesis using run_redraw by metis
qed

definition plain_login :: "Input list" where
  "plain_login =
     [server_line ''CAP'' [''*'', ''LS'', ''sasl=PLAIN''], server_line ''CAP'' [''*'', ''ACK'', ''sasl''],
      server_line ''AUTHENTICATE'' [''+''], server_line ''903'' [''al''], server_line ''001'' [''al''],
      server_line ''422'' [''al'']]"

definition sasl_plain :: "bool \<Rightarrow> string \<Rightarrow> string \<Rightarrow> SASLConfig" where
  "sasl_plain req user pass = \<lparr>Wanted = True, Required = req, User = user, Pass = pass, HasClientCert = False\<rparr>"

definition no_scram :: "unit scram" where
  "no_scram = \<lparr>scramNew = \<lambda>_ _ _. Inl ''unavailable'', scramStep = \<lambda>c _. (c, Inl ''unavailable'')\<rparr>"

theorem replay_identical_to_live_witness:
  "run (Step no_scram) (reg_New ''al'' [] True (sasl_plain True ''u'' ''p''))
     (map (as_replay True) (map2 redraw (replicate 6 ''x'') plain_login)) =
   mark_actions True (run (Step no_scram) (reg_New ''al'' [] True (sasl_plain True ''u'' ''p'')) plain_login) \<and>
   phase (fst (run (Step no_scram) (reg_New ''al'' [] True (sasl_plain True ''u'' ''p'')) plain_login)) = PhaseComplete"
proof -
  let ?s = "reg_New ''al'' [] True (sasl_plain True ''u'' ''p'') :: unit regState"
  have "\<not> in_scram ?s" by code_simp
  moreover have "scram_line \<notin> set (sent_lines (snd (run (Step no_scram) ?s plain_login)))" by code_simp
  moreover have "length (replicate 6 ''x'') = length plain_login" by (simp add: plain_login_def)
  moreover have "phase (fst (run (Step no_scram) ?s plain_login)) = PhaseComplete" by code_simp
  ultimately show ?thesis using replay_identical_to_live [of no_scram ?s True plain_login "replicate 6 ''x''"] by blast
qed

text \<open>With SCRAM a replay sends other lines than the live run: the nonce of the conversation is new.\<close>

definition echo_scram :: "string scram" where
  "echo_scram = \<lparr>scramNew = \<lambda>_ _ nonce. Inr nonce, scramStep = \<lambda>c _. (c, Inr (''n,,n=u,r='' @ c))\<rparr>"

lemma replayed_scram_differs:
  "let s = reg_New ''al'' [] True (sasl_plain True ''u'' ''p'');
       ins = [server_line ''CAP'' [''*'', ''LS'', ''sasl=SCRAM-SHA-256''], server_line ''CAP'' [''*'', ''ACK'', ''sasl''],
              server_line ''AUTHENTICATE'' [''+'']]
   in sent_lines (snd (run (Step echo_scram) s (map (redraw ''one'') ins))) \<noteq>
      sent_lines (snd (run (Step echo_scram) s (map (redraw ''two'') ins)))"
  by code_simp

section \<open>One verdict\<close>

definition terminal :: "'c regState \<Rightarrow> bool" where
  "terminal s \<longleftrightarrow> phase s = PhaseComplete \<or> phase s = PhaseFailed"

definition verdicts :: "Action list \<Rightarrow> (ActionKind \<times> reg_error option) list" where
  "verdicts as = map (\<lambda>a. (aKind a, aErr a)) (filter (\<lambda>a. aKind a \<noteq> ActionSend) as)"

definition verdict_of :: "'c regState \<Rightarrow> (ActionKind \<times> reg_error option) list" where
  "verdict_of s =
     (case phase s of
        PhaseComplete \<Rightarrow> [(ActionRegistered, None)]
      | PhaseFailed \<Rightarrow> [(ActionFailed, regErr s)]
      | _ \<Rightarrow> [])"

text \<open>What a step that starts before the verdict may do: it emits the verdict it reaches.\<close>

definition verdict_ok :: "'c regState \<Rightarrow> 'c regState \<times> Action list \<Rightarrow> bool" where
  "verdict_ok s r \<longleftrightarrow>
     verdicts (snd r) = verdict_of (fst r) \<and> (phase (fst r) = PhaseComplete \<longrightarrow> GotWelcome s) \<and>
     (GotWelcome s \<longrightarrow> GotWelcome (fst r))"

named_theorems verdict

lemma verdicts_simps [simp]:
  "verdicts [] = []"
  "verdicts (as @ bs) = verdicts as @ verdicts bs"
  "verdicts (send i l # as) = verdicts as"
  "verdicts (failed i e # as) = (ActionFailed, Some e) # verdicts as"
  "verdicts (registered i # as) = (ActionRegistered, None) # verdicts as"
  by (simp_all add: verdicts_def send_def failed_def registered_def)

lemma verdicts_sends [simp]: "verdicts (map (send i) ls) = []"
  by (induction ls) simp_all

lemma verdict_of_early [simp]: "\<not> terminal s \<Longrightarrow> verdict_of s = []"
  by (auto simp: terminal_def verdict_of_def split: Phase.split)

lemma verdict_ok_idle [verdict]: "\<not> terminal s \<Longrightarrow> verdict_ok s (s, [])"
  by (simp add: verdict_ok_def) (simp add: terminal_def)

lemma verdict_ok_fail [verdict]:
  "GotWelcome s1 = GotWelcome s \<Longrightarrow> verdict_ok s (fail s1 e, [failed i e])"
  by (simp add: verdict_ok_def fail_def verdict_of_def)

lemma verdict_ok_cap_end [verdict]: "GotWelcome s1 = GotWelcome s \<Longrightarrow> verdict_ok s (cap_end s1 i)"
  by (simp add: verdict_ok_def cap_end_def verdict_of_def)

lemma verdict_ok_sends:
  "verdicts as = [] \<Longrightarrow> \<not> terminal s1 \<Longrightarrow> (GotWelcome s \<Longrightarrow> GotWelcome s1) \<Longrightarrow> verdict_ok s (s1, as)"
  by (simp add: verdict_ok_def) (simp add: terminal_def)

lemma end_sasl_simps [simp]:
  "phase (end_sasl s) = phase s" "GotWelcome (end_sasl s) = GotWelcome s" "SASL (end_sasl s) = SASL s"
  by (simp_all add: end_sasl_def)

lemma verdict_stepSASLOutcome [verdict]: "\<not> terminal s \<Longrightarrow> verdict_ok s (stepSASLOutcome s i)"
  by (simp add: stepSASLOutcome_def Let_def verdict) (simp add: verdict_ok_def, simp add: terminal_def)

lemma verdict_startSASL [verdict]:
  "GotWelcome s1 = GotWelcome s \<Longrightarrow> verdict_ok s (startSASL s1 i)"
  by (auto simp: startSASL_def Let_def verdict terminal_def intro!: verdict_ok_sends split: option.split)

lemma verdict_abortSASL [verdict]:
  "\<not> terminal s \<Longrightarrow> phase s1 = phase s \<Longrightarrow> GotWelcome s1 = GotWelcome s \<Longrightarrow> verdict_ok s (abortSASL s1 i e)"
  by (auto simp: abortSASL_def Let_def terminal_def verdict_ok_def verdict_of_def fail_def split: Phase.split)

lemma verdict_sendAuthenticate [verdict]:
  "\<not> terminal s \<Longrightarrow> phase s1 = phase s \<Longrightarrow> GotWelcome s1 = GotWelcome s \<Longrightarrow>
   verdict_ok s (sendAuthenticate s1 i b64)"
  by (auto simp: sendAuthenticate_def terminal_def intro!: verdict_ok_sends)

lemma verdict_stepSCRAM [verdict]: "\<not> terminal s \<Longrightarrow> verdict_ok s (stepSCRAM sc s i p)"
  by (simp add: stepSCRAM_def Let_def verdict split: option.split sum.split prod.split)

lemma verdict_stepAuthenticate [verdict]: "\<not> terminal s \<Longrightarrow> verdict_ok s (stepAuthenticate sc s i)"
  by (auto simp: stepAuthenticate_def Let_def verdict terminal_def intro!: verdict_ok_sends)

lemma verdict_stepNickError [verdict]: "\<not> terminal s \<Longrightarrow> verdict_ok s (stepNickError s i)"
  by (auto simp: stepNickError_def Let_def verdict terminal_def intro!: verdict_ok_sends split: option.split)

lemma verdict_stepCAP [verdict]: "\<not> terminal s \<Longrightarrow> verdict_ok s (stepCAP s i)"
  by (auto simp: stepCAP_def Let_def verdict terminal_def intro!: verdict_ok_sends)

lemma verdict_ok_complete:
  "\<not> terminal s \<Longrightarrow>
   verdict_ok s (if \<not> GotWelcome s then (s, []) else (s\<lparr>phase := PhaseComplete\<rparr>, [registered i]))"
  by (simp add: verdict) (simp add: verdict_ok_def verdict_of_def)

lemma verdict_ok_if: "verdict_ok s x \<Longrightarrow> verdict_ok s y \<Longrightarrow> verdict_ok s (if b then x else y)"
  by simp

lemma terminal_updates [simp]:
  "terminal (s\<lparr>GotWelcome := w\<rparr>) = terminal s" "terminal (s\<lparr>regNick := n\<rparr>) = terminal s"
  "terminal (s\<lparr>RPL002 := l\<rparr>) = terminal s" "terminal (s\<lparr>RPL003 := l\<rparr>) = terminal s"
  "terminal (s\<lparr>RPL004 := l\<rparr>) = terminal s" "terminal (s\<lparr>regISUPPORT := is\<rparr>) = terminal s"
  "terminal (s\<lparr>phase := PhaseAwaitingWelcome\<rparr>) = False"
  by (simp_all add: terminal_def)

lemma verdict_Step: "\<not> terminal s \<Longrightarrow> verdict_ok s (Step sc s i)"
  unfolding Step_def Let_def
  by (intro verdict_ok_complete verdict_ok_if) (simp_all add: verdict verdict_ok_sends)

lemma Step_terminal: "terminal s \<Longrightarrow> Step sc s i = (s, [])"
  by (simp add: Step_def terminal_def)

named_theorems keeps_welcome

lemma welcome_parts [keeps_welcome]:
  "GotWelcome (fst (cap_end s i)) = GotWelcome s" "GotWelcome (fail s e) = GotWelcome s"
  "GotWelcome (fst (sendAuthenticate s i b64)) = GotWelcome s"
  by (simp_all add: cap_end_def fail_def sendAuthenticate_def)

lemma welcome_abortSASL [keeps_welcome]: "GotWelcome (fst (abortSASL s i e)) = GotWelcome s"
  by (simp add: abortSASL_def Let_def keeps_welcome)

lemma welcome_stepSCRAM [keeps_welcome]: "GotWelcome (fst (stepSCRAM sc s i p)) = GotWelcome s"
  by (simp add: stepSCRAM_def Let_def keeps_welcome split: option.split sum.split prod.split)

lemma welcome_if: "GotWelcome (fst x) = w \<Longrightarrow> GotWelcome (fst y) = w \<Longrightarrow> GotWelcome (fst (if b then x else y)) = w"
  by simp

lemma welcome_stepAuthenticate [keeps_welcome]: "GotWelcome (fst (stepAuthenticate sc s i)) = GotWelcome s"
  unfolding stepAuthenticate_def Let_def by (intro welcome_if) (simp_all add: keeps_welcome)

lemma welcome_outcomes [keeps_welcome]:
  "GotWelcome (fst (stepSASLOutcome s i)) = GotWelcome s" "GotWelcome (fst (startSASL s i)) = GotWelcome s"
  "GotWelcome (fst (stepNickError s i)) = GotWelcome s"
  by (simp_all add: stepSASLOutcome_def startSASL_def stepNickError_def Let_def keeps_welcome split: option.split)

lemma welcome_stepCAP [keeps_welcome]: "GotWelcome (fst (stepCAP s i)) = GotWelcome s"
  unfolding stepCAP_def Let_def by (intro welcome_if) (simp_all add: keeps_welcome)

lemma welcome_Step:
  assumes "Command (inMsg i) \<noteq> ''001''"
  shows "GotWelcome (fst (Step sc s i)) = GotWelcome s"
  unfolding Step_def Let_def
  by (simp only: assms if_False, intro welcome_if) (simp_all add: keeps_welcome)

text \<open>Concrete messages and a stand-in for the SCRAM package, for the examples.\<close>





definition sasl_off :: SASLConfig where
  "sasl_off = \<lparr>Wanted = False, Required = False, User = [], Pass = [], HasClientCert = False\<rparr>"

lemma server_line_simps [simp]:
  "Command (inMsg (server_line cmd ps)) = cmd" "Params (inMsg (server_line cmd ps)) = ps"
  "inReplay (server_line cmd ps) = False"
  by (simp_all add: server_line_def)

section \<open>Authentication payloads\<close>

text \<open>
  The receiving side of the IRCv3 exchange: chunks are joined until one is shorter than the chunk
  size, and \<open>+\<close> stands for an empty one.
\<close>

fun reassemble :: "string \<Rightarrow> string list \<Rightarrow> (string \<times> string list) option" where
  "reassemble acc [] = None"
| "reassemble acc (p # ps) =
     (if p = ''+'' then Some (acc, ps)
      else if length p = authenticateChunkSize then reassemble (acc @ p) ps
      else Some (acc @ p, ps))"

definition auth_params :: "Action list \<Rightarrow> string list" where
  "auth_params as = map (\<lambda>a. drop (length ''AUTHENTICATE '') (aLine a)) as"

lemma auth_params_sends [simp]: "auth_params (map (send i) ls) = map (drop (length ''AUTHENTICATE '')) ls"
  by (simp add: auth_params_def send_def)

lemma reassemble_chunks:
  "length b64 \<noteq> 1 \<Longrightarrow> b64 \<noteq> [] \<Longrightarrow> 4 dvd length b64 \<Longrightarrow>
   reassemble acc (map (drop (length ''AUTHENTICATE '')) (auth_chunks b64)) = Some (acc @ b64, [])"
proof (induction b64 arbitrary: acc rule: auth_chunks.induct)
  case (1 b64)
  show ?case
  proof (cases "length b64 > authenticateChunkSize")
    case True
    then have "4 dvd length (drop authenticateChunkSize b64)" using "1.prems"(3) by (simp add: authenticateChunkSize_def)
    moreover have "length (drop authenticateChunkSize b64) \<noteq> 1" using calculation by auto
    moreover have "length (take authenticateChunkSize b64) = authenticateChunkSize" using True by simp
    then have "take authenticateChunkSize b64 \<noteq> ''+''"
      unfolding authenticateChunkSize_def by (metis One_nat_def length_Cons list.size(3) numeral_eq_one_iff semiring_norm(85))
    ultimately show ?thesis
      using "1.IH" [OF True] True by (subst auth_chunks.simps) simp
  next
    case False
    then show ?thesis using "1.prems" by (subst auth_chunks.simps) (auto simp: authenticateChunkSize_def)
  qed
qed

lemma auth_chunks_length: "l \<in> set (auth_chunks b64) \<Longrightarrow> length l \<le> length ''AUTHENTICATE '' + authenticateChunkSize"
proof (induction b64 rule: auth_chunks.induct)
  case (1 b64)
  then show ?case
    by (subst (asm) (2) auth_chunks.simps) (auto simp: authenticateChunkSize_def split: if_splits)
qed

lemma sendAuthenticate_delivers:
  assumes "as = snd (sendAuthenticate s i (encode64 payload))" "payload \<noteq> []"
  shows "(case reassemble [] (auth_params as) of Some (b64, []) \<Rightarrow> decode64 b64 | _ \<Rightarrow> None) = Some payload"
proof -
  have "length (encode64 payload) \<noteq> 1" using length_encode64 [of payload] by auto
  moreover have "encode64 payload \<noteq> ''+''" using calculation by auto
  ultimately show ?thesis
    using assms length_encode64 [of payload] reassemble_chunks [of "encode64 payload" "[]"]
    by (simp add: sendAuthenticate_def decode64_encode64)
qed

lemma sendAuthenticate_length:
  "a \<in> set (snd (sendAuthenticate s i b64)) \<Longrightarrow> length (aLine a) \<le> length ''AUTHENTICATE '' + authenticateChunkSize"
  using auth_chunks_length [of _ b64]
  by (auto simp: sendAuthenticate_def send_def authenticateChunkSize_def split: if_splits)

text \<open>
  C33. Asked for a PLAIN payload, the machine answers with lines whose parameter is at most 400 bytes,
  and a server that joins the chunks and decodes them reads the user and the password, whatever
  bytes they hold and also when the encoding ends exactly on a chunk boundary.
\<close>

theorem sasl_plain_delivered:
  assumes "saslMech s = ''PLAIN''" "Param (inMsg i) 0 = ''+''" "User (SASL s) \<noteq> []" "Pass (SASL s) \<noteq> []"
  shows "fst (stepAuthenticate sc s i) = s \<and>
    list_all (\<lambda>p. length p \<le> 400) (auth_params (snd (stepAuthenticate sc s i))) \<and>
    (case reassemble [] (auth_params (snd (stepAuthenticate sc s i))) of
       Some (b64, []) \<Rightarrow> decode64 b64 | _ \<Rightarrow> None) = Some ([NUL] @ User (SASL s) @ [NUL] @ Pass (SASL s))"
proof -
  let ?payload = "[NUL] @ User (SASL s) @ [NUL] @ Pass (SASL s)"
  have upper: "to_upper ''PLAIN'' = ''PLAIN''" by code_simp
  have step: "stepAuthenticate sc s i = sendAuthenticate s i (encode64 ?payload)"
    using assms by (simp add: stepAuthenticate_def Let_def upper)
  have "list_all (\<lambda>p. length p \<le> 400) (auth_params (snd (sendAuthenticate s i (encode64 ?payload))))"
    using sendAuthenticate_length [of _ s i "encode64 ?payload"]
    by (auto simp: list_all_iff auth_params_def authenticateChunkSize_def le_diff_conv)
  then show ?thesis
    using sendAuthenticate_delivers [OF refl, of ?payload s i] unfolding step by (simp add: sendAuthenticate_def)
qed



theorem sasl_plain_delivered_witness:
  "let s = (reg_New ''al'' [] False (sasl_plain True ''u'' ''p''))\<lparr>saslMech := ''PLAIN''\<rparr>;
       r = stepAuthenticate no_scram s (server_line ''AUTHENTICATE'' [''+''])
   in (case reassemble [] (auth_params (snd r)) of Some (b64, []) \<Rightarrow> decode64 b64 | _ \<Rightarrow> None) =
        Some [NUL, CHR ''u'', NUL, CHR ''p''] \<and>
      auth_params (snd r) = [''AHUAcA=='']"
proof -
  let ?s = "(reg_New ''al'' [] False (sasl_plain True ''u'' ''p''))\<lparr>saslMech := ''PLAIN''\<rparr>"
  let ?i = "server_line ''AUTHENTICATE'' [''+'']"
  have "Param (inMsg ?i) 0 = ''+''" by (simp add: Param_def)
  moreover have "auth_params (snd (stepAuthenticate no_scram ?s ?i)) = [''AHUAcA=='']" by code_simp
  ultimately show ?thesis
    using sasl_plain_delivered [of ?s ?i no_scram] by (simp add: reg_New_def sasl_plain_def)
qed

section \<open>The ladder of nicks\<close>

definition ladder_ok :: "int \<Rightarrow> string list \<times> string list \<Rightarrow> bool" where
  "ladder_ok maxLen acc \<longleftrightarrow>
     fst acc = map to_lower (snd acc) \<and> distinct (fst acc) \<and>
     list_all (\<lambda>n. n \<noteq> [] \<and> int (length n) \<le> maxLen) (snd acc)"

lemma ladder_add_ok: "0 < maxLen \<Longrightarrow> ladder_ok maxLen acc \<Longrightarrow> ladder_ok maxLen (ladder_add maxLen nick acc)"
  by (cases acc) (auto simp: ladder_add_def ladder_ok_def Let_def)

lemma ladder_add_length: "length (snd (ladder_add maxLen nick acc)) \<le> Suc (length (snd acc))"
  by (cases acc) (simp add: ladder_add_def Let_def)

lemma ladder_add_prefix: "\<exists>more. snd (ladder_add maxLen nick acc) = snd acc @ more"
  by (cases acc) (auto simp: ladder_add_def Let_def)

lemma ladder_loop_ok:
  "0 < maxLen \<Longrightarrow> ladder_ok maxLen acc \<Longrightarrow> ladder_ok maxLen (ladder_loop primary maxLen i acc)"
proof (induction primary maxLen i acc rule: ladder_loop.induct)
  case (1 primary maxLen i acc)
  then show ?case by (subst ladder_loop.simps) (simp add: Let_def ladder_add_ok)
qed

lemma ladder_loop_length:
  "length (snd (ladder_loop primary maxLen i acc)) \<le> length (snd acc) + nat (maxUnderscoreTries + 1 - i)"
proof (induction primary maxLen i acc rule: ladder_loop.induct)
  case (1 primary maxLen i acc)
  let ?base = "if int (length primary) > maxLen - i then take (nat (maxLen - i)) primary else primary"
  let ?acc = "ladder_add maxLen (?base @ replicate (nat i) (CHR ''_'')) acc"
  show ?case
  proof (cases "i \<le> maxUnderscoreTries \<and> i < maxLen")
    case True
    then have "length (snd (ladder_loop primary maxLen (i + 1) ?acc)) \<le> length (snd ?acc) + nat (maxUnderscoreTries - i)"
      using 1 [of "maxLen - i" ?base] by simp
    also have "\<dots> \<le> length (snd acc) + nat (maxUnderscoreTries + 1 - i)"
      using ladder_add_length [of maxLen "?base @ replicate (nat i) (CHR ''_'')" acc] True by linarith
    finally show ?thesis using True by (subst ladder_loop.simps) (simp add: Let_def)
  next
    case False
    then show ?thesis by (subst ladder_loop.simps) auto
  qed
qed

lemma ladder_loop_prefix: "\<exists>more. snd (ladder_loop primary maxLen i acc) = snd acc @ more"
proof (induction primary maxLen i acc rule: ladder_loop.induct)
  case (1 primary maxLen i acc)
  let ?base = "if int (length primary) > maxLen - i then take (nat (maxLen - i)) primary else primary"
  let ?acc = "ladder_add maxLen (?base @ replicate (nat i) (CHR ''_'')) acc"
  show ?case
  proof (cases "i \<le> maxUnderscoreTries \<and> i < maxLen")
    case True
    then obtain m1 where "snd (ladder_loop primary maxLen (i + 1) ?acc) = snd ?acc @ m1"
      using 1 [of "maxLen - i" ?base] by auto
    moreover obtain m2 where "snd ?acc = snd acc @ m2" using ladder_add_prefix by blast
    ultimately show ?thesis using True by (subst ladder_loop.simps) (simp add: Let_def)
  next
    case False
    then show ?thesis by (subst ladder_loop.simps) auto
  qed
qed

text \<open>
  C34. The ladder of nicks starts with the wanted nick, cut to the network's length; it has at most 22
  rungs, no two of them equal up to ASCII case, and each is a nonempty nick that fits the length.
\<close>

theorem nick_ladder_shape:
  assumes "primary \<noteq> []" "0 < maxLen"
  shows "hd (buildNickLadder primary alt maxLen) = take (nat maxLen) primary \<and>
    length (buildNickLadder primary alt maxLen) \<le> 22 \<and>
    distinct (map to_lower (buildNickLadder primary alt maxLen)) \<and>
    list_all (\<lambda>n. n \<noteq> [] \<and> int (length n) \<le> maxLen) (buildNickLadder primary alt maxLen)"
proof -
  let ?a1 = "ladder_add maxLen primary ([], [])"
  let ?a2 = "ladder_add maxLen alt ?a1"
  let ?l = "ladder_loop primary maxLen 1 ?a2"
  have l: "buildNickLadder primary alt maxLen = snd ?l" using assms(2) by (simp add: buildNickLadder_def)
  have "ladder_ok maxLen ?l" using assms(2) by (intro ladder_loop_ok ladder_add_ok) (simp_all add: ladder_ok_def)
  moreover have "snd ?a1 = [take (nat maxLen) primary]"
    using assms by (auto simp: ladder_add_def Let_def)
  then have "hd (snd ?l) = take (nat maxLen) primary"
    using ladder_loop_prefix [of primary maxLen 1 ?a2] ladder_add_prefix [of maxLen alt ?a1] by auto
  moreover have "length (snd ?l) \<le> 22"
    using ladder_loop_length [of primary maxLen 1 ?a2] ladder_add_length [of maxLen alt ?a1] \<open>snd ?a1 = _\<close>
    by (simp add: maxUnderscoreTries_def)
  ultimately show ?thesis unfolding l ladder_ok_def by metis
qed

theorem nick_ladder_shape_witness:
  "hd (buildNickLadder ''alice'' ''Al'' 4) = ''alic'' \<and> buildNickLadder ''alice'' ''Al'' 4 = [''alic'', ''Al'', ''ali_'', ''al__'', ''a___'']"
proof -
  have "buildNickLadder ''alice'' ''Al'' 4 = [''alic'', ''Al'', ''ali_'', ''al__'', ''a___'']" by code_simp
  then show ?thesis using nick_ladder_shape [of "''alice''" 4 "''Al''"] by simp
qed

text \<open>Where a search stands on the ladder: past the last rung that is the given nick.\<close>

definition last_rung :: "(string \<Rightarrow> bool) \<Rightarrow> string list \<Rightarrow> nat" where
  "last_rung P L = length (dropWhile (\<lambda>x. \<not> P x) (rev L))"

lemma last_rung_le: "last_rung P L \<le> length L"
  by (metis last_rung_def length_dropWhile_le length_rev)

lemma after_last_rung: "x \<in> set (drop (last_rung P L) L) \<Longrightarrow> \<not> P x"
proof -
  have "rev (drop (last_rung P L) L) = takeWhile (\<lambda>x. \<not> P x) (rev L)"
    by (metis append_eq_conv_conj last_rung_def length_rev rev_append rev_rev_ident takeWhile_dropWhile_id)
  then show "x \<in> set (drop (last_rung P L) L) \<Longrightarrow> \<not> P x"
    by (metis set_rev set_takeWhileD)
qed

lemma last_rung_after:
  assumes "k < length L" "P (L ! k)"
  shows "k < last_rung P L"
proof (rule ccontr)
  assume "\<not> k < last_rung P L"
  then have "L ! k \<in> set (drop (last_rung P L) L)"
    using assms(1) by (auto simp: in_set_conv_nth intro!: exI [of _ "k - last_rung P L"])
  then show False using after_last_rung assms(2) by blast
qed

lemma length_dropWhile_mono:
  "(\<And>x. P x \<Longrightarrow> Q x) \<Longrightarrow> length (dropWhile (\<lambda>x. \<not> P x) xs) \<le> length (dropWhile (\<lambda>x. \<not> Q x) xs)"
  by (induction xs) (auto intro: le_SucI length_dropWhile_le)

lemma last_rung_mono: "(\<And>x. P x \<Longrightarrow> Q x) \<Longrightarrow> last_rung P L \<le> last_rung Q L"
  unfolding last_rung_def by (rule length_dropWhile_mono)

lemma ladder_index_snoc:
  "ladder_index cm p b i (ns @ [x]) idx =
     (if Equal cm x p \<or> Equal cm x b then Some (i + length ns) else ladder_index cm p b i ns idx)"
  by (induction ns arbitrary: i idx) simp_all

lemma ladder_index_last:
  "ladder_index cm p b 0 L None =
     (let d = last_rung (\<lambda>x. Equal cm x p \<or> Equal cm x b) L in if d = 0 then None else Some (d - 1))"
  by (induction L rule: rev_induct) (simp_all add: ladder_index_snoc last_rung_def Let_def)

definition ladder :: "'c regState \<Rightarrow> string list" where
  "ladder s = buildNickLadder (PrimaryNick s) (AltNick s) (nick_len s)"

definition rung :: "'c regState \<Rightarrow> nat" where
  "rung s = last_rung (\<lambda>x. Equal (isCaseMapping (regISUPPORT s)) x (regNick s)) (ladder s)"

definition nick_error :: "Input \<Rightarrow> bool" where
  "nick_error i \<longleftrightarrow> Command (inMsg i) \<in> set [''432'', ''433''] \<or> Command (inMsg i) = ''437'' \<and> Param (inMsg i) 0 = ''*''"

lemma nextLadderNick_rung:
  assumes "nextLadderNick s bad = Some nick"
  shows "\<exists>k. rung s \<le> k \<and> k < length (ladder s) \<and> nick = ladder s ! k"
proof -
  let ?cm = "isCaseMapping (regISUPPORT s)"
  let ?d = "last_rung (\<lambda>x. Equal ?cm x (regNick s) \<or> Equal ?cm x bad) (ladder s)"
  have d: "rung s \<le> ?d" unfolding rung_def by (rule last_rung_mono) simp
  have "nick \<noteq> []" "nick = nextNickInLadder (ladder s) (regNick s) bad ?cm"
    using assms by (auto simp: nextLadderNick_def ladder_def Let_def split: if_splits)
  then have "?d = 0 \<and> 1 < length (ladder s) \<and> nick = ladder s ! 1 \<or> ?d < length (ladder s) \<and> nick = ladder s ! ?d"
    by (cases "?d = 0") (simp_all add: nextNickInLadder_def ladder_index_last Let_def split: if_splits)
  then show ?thesis
  proof
    assume "?d = 0 \<and> 1 < length (ladder s) \<and> nick = ladder s ! 1"
    then show ?thesis using d by (intro exI [of _ 1]) linarith
  next
    assume "?d < length (ladder s) \<and> nick = ladder s ! ?d"
    then show ?thesis using d by blast
  qed
qed

lemma Step_nick_error:
  "nick_error i \<Longrightarrow> \<not> terminal s \<Longrightarrow> \<not> GotWelcome s \<Longrightarrow>
   Step sc s i =
     (case nextLadderNick s (Param (inMsg i) 1) of
        None \<Rightarrow> let err = NickFailure (Command (inMsg i)) (Params (inMsg i)) in (fail s err, [failed i err])
      | Some nick \<Rightarrow> (s\<lparr>regNick := nick\<rparr>, [send i (''NICK '' @ nick)]))"
  unfolding nick_error_def by (elim disjE) (simp_all add: Step_def stepNickError_def terminal_def Let_def, elim disjE, simp_all)

lemma ladder_regNick [simp]: "ladder (s\<lparr>regNick := n\<rparr>) = ladder s"
  by (simp add: ladder_def nick_len_def)

lemma run_terminal: "terminal s \<Longrightarrow> run (Step sc) s ins = (s, [])"
  by (induction ins) (simp_all add: Step_terminal)





lemma rung_climbs:
  assumes "nextLadderNick s bad = Some nick"
  shows "nick \<in> set (drop (rung s) (ladder s))" "rung s < rung (s\<lparr>regNick := nick\<rparr>)"
    and "x \<in> set (drop (rung (s\<lparr>regNick := nick\<rparr>)) (ladder s)) \<Longrightarrow>
           \<not> Equal (isCaseMapping (regISUPPORT s)) x nick"
proof -
  obtain k where k: "rung s \<le> k" "k < length (ladder s)" "nick = ladder s ! k"
    using nextLadderNick_rung [OF assms] by auto
  then show "nick \<in> set (drop (rung s) (ladder s))"
    by (auto simp: in_set_conv_nth intro!: exI [of _ "k - rung s"])
  have "k < rung (s\<lparr>regNick := nick\<rparr>)" using k unfolding rung_def by (intro last_rung_after) simp_all
  then show "rung s < rung (s\<lparr>regNick := nick\<rparr>)" using k(1) by simp
  show "x \<in> set (drop (rung (s\<lparr>regNick := nick\<rparr>)) (ladder s)) \<Longrightarrow> \<not> Equal (isCaseMapping (regISUPPORT s)) x nick"
    using after_last_rung [of x _ "ladder s"] by (auto simp: rung_def)
qed

text \<open>
  What a storm of nick errors does: the rungs tried lie behind the current one and no two are the
  same nick, and when there are more errors than rungs left the registration has failed.
\<close>

definition climbs :: "'c regState \<Rightarrow> nat \<Rightarrow> 'c regState \<times> Action list \<Rightarrow> bool" where
  "climbs s n r \<longleftrightarrow>
     (\<exists>ns. sent_lines (snd r) = map (\<lambda>n. ''NICK '' @ n) ns \<and> set ns \<subseteq> set (drop (rung s) (ladder s)) \<and>
           distinct (map (Fold (isCaseMapping (regISUPPORT s))) ns)) \<and>
     (length (ladder s) - rung s < n \<longrightarrow> phase (fst r) = PhaseFailed)"

lemma climbs_fail: "climbs s n (fail s e, [failed i e'])"
  by (simp add: climbs_def fail_def)

lemma climbs_Cons:
  assumes nxt: "nextLadderNick s bad = Some nick"
    and rest: "climbs (s\<lparr>regNick := nick\<rparr>) n (s2, as)"
  shows "climbs s (Suc n) (s2, send i (''NICK '' @ nick) # as)"
proof -
  let ?s = "s\<lparr>regNick := nick\<rparr>" and ?cm = "isCaseMapping (regISUPPORT s)"
  obtain ns where ns: "sent_lines as = map (\<lambda>n. ''NICK '' @ n) ns" "set ns \<subseteq> set (drop (rung ?s) (ladder s))"
    "distinct (map (Fold ?cm) ns)" using rest by (auto simp: climbs_def)
  have less: "rung s < rung ?s" by (rule rung_climbs(2) [OF nxt])
  have top: "rung ?s \<le> length (ladder s)" by (simp add: rung_def last_rung_le)
  have "set ns \<subseteq> set (drop (rung s) (ladder s))"
    using ns(2) less set_drop_subset_set_drop [of "rung s" "rung ?s" "ladder s"] by auto
  moreover have "Fold ?cm nick \<notin> set (map (Fold ?cm) ns)"
  proof
    assume "Fold ?cm nick \<in> set (map (Fold ?cm) ns)"
    then obtain x where x: "x \<in> set ns" "Fold ?cm x = Fold ?cm nick" by auto
    then have "\<not> Equal ?cm x nick" using ns(2) rung_climbs(3) [OF nxt, of x] by blast
    then show False using x(2) by (simp add: Equal_def)
  qed
  moreover have "length (ladder s) - rung s < Suc n \<longrightarrow> phase s2 = PhaseFailed"
    using rest less top by (auto simp: climbs_def)
  ultimately show ?thesis
    using ns rung_climbs(1) [OF nxt] unfolding climbs_def by (auto intro!: exI [of _ "nick # ns"])
qed

lemma nick_errors_climb:
  "list_all nick_error ins \<Longrightarrow> \<not> terminal s \<Longrightarrow> \<not> GotWelcome s \<Longrightarrow> climbs s (length ins) (run (Step sc) s ins)"
proof (induction ins arbitrary: s)
  case Nil
  then show ?case by (simp add: climbs_def)
next
  case (Cons i ins)
  show ?case
  proof (cases "nextLadderNick s (Param (inMsg i) 1)")
    case None
    then have "run (Step sc) s (i # ins) =
        (fail s (NickFailure (Command (inMsg i)) (Params (inMsg i))), [failed i (NickFailure (Command (inMsg i)) (Params (inMsg i)))])"
      using Cons.prems by (simp add: Step_nick_error Let_def run_terminal terminal_def fail_def)
    then show ?thesis by (simp add: climbs_fail)
  next
    case (Some nick)
    let ?s = "s\<lparr>regNick := nick\<rparr>"
    have "climbs ?s (length ins) (run (Step sc) ?s ins)" using Cons by simp
    then have "climbs s (Suc (length ins)) (fst (run (Step sc) ?s ins), send i (''NICK '' @ nick) # snd (run (Step sc) ?s ins))"
      by (intro climbs_Cons [OF Some]) simp
    then show ?thesis using Some Cons.prems by (simp add: Step_nick_error split_beta)
  qed
qed

lemma ladder_length: "length (ladder s) \<le> 22"
proof -
  let ?m = "if nick_len s \<le> 0 then defaultNickLen else nick_len s"
  let ?a1 = "ladder_add ?m (PrimaryNick s) ([], [])"
  show ?thesis
    using ladder_loop_length [of "PrimaryNick s" ?m 1 "ladder_add ?m (AltNick s) ?a1"]
      ladder_add_length [of ?m "AltNick s" ?a1] ladder_add_length [of ?m "PrimaryNick s" "([], [])"]
    by (simp add: ladder_def buildNickLadder_def maxUnderscoreTries_def Let_def)
qed

text \<open>
  C35. However often the server refuses the nick before the welcome, and whatever nick each refusal
  names, the machine tries only rungs of the ladder, never the same nick twice under the network's
  case mapping, and after more than 22 refusals registration has failed: it never asks for ever.
\<close>

theorem nick_errors_end:
  assumes "list_all nick_error ins" "\<not> terminal s" "\<not> GotWelcome s" "run (Step sc) s ins = (s', as)"
  shows "(\<exists>ns. sent_lines as = map (\<lambda>n. ''NICK '' @ n) ns \<and>
           set ns \<subseteq> set (buildNickLadder (PrimaryNick s) (AltNick s) (nick_len s)) \<and>
           distinct (map (Fold (isCaseMapping (regISUPPORT s))) ns)) \<and>
    (22 < length ins \<longrightarrow> phase s' = PhaseFailed)"
  using nick_errors_climb [OF assms(1-3), of sc] ladder_length [of s] set_drop_subset [of "rung s" "ladder s"]
  unfolding climbs_def assms(4) ladder_def fst_conv snd_conv by (meson diff_le_self le_less_trans order_trans)

definition refuse :: "string \<Rightarrow> Input" where
  "refuse nick = server_line ''433'' [''*'', nick, ''Nickname is already in use.'']"

theorem nick_errors_end_witness:
  "let r = run (Step no_scram) (reg_New ''al'' [] True sasl_off) (replicate 23 (refuse ''al''))
   in phase (fst r) = PhaseFailed"
proof -
  let ?s = "reg_New ''al'' [] True sasl_off :: unit regState" and ?ins = "replicate 23 (refuse ''al'')"
  have "list_all nick_error ?ins" by (simp add: list_all_iff nick_error_def refuse_def)
  moreover have "\<not> terminal ?s" "\<not> GotWelcome ?s" by (simp_all add: reg_New_def terminal_def)
  ultimately show ?thesis
    using nick_errors_end [of ?ins ?s no_scram "fst (run (Step no_scram) ?s ?ins)" "snd (run (Step no_scram) ?s ?ins)"]
    by simp
qed

section \<open>After registration\<close>

definition post_ok :: "'c regState \<Rightarrow> 'c regState \<times> Action list \<Rightarrow> bool" where
  "post_ok s r \<longleftrightarrow>
     phase (fst r) = phase s \<and> GotWelcome (fst r) = GotWelcome s \<and> regNick (fst r) = regNick s \<and>
     regErr (fst r) = regErr s \<and> verdicts (snd r) = []"

lemma post_ok_if: "post_ok s x \<Longrightarrow> post_ok s y \<Longrightarrow> post_ok s (if b then x else y)"
  by simp

named_theorems post

lemma post_ok_idle [post]: "post_ok s (s, [])"
  by (simp add: post_ok_def)

lemma post_stepSASLOutcome [post]: "GotWelcome s \<Longrightarrow> post_ok s (stepSASLOutcome s i)"
  by (simp add: stepSASLOutcome_def post_ok_def Let_def end_sasl_def)

lemma post_abortSASL [post]: "GotWelcome s \<Longrightarrow> post_ok s (abortSASL (s\<lparr>scramConv := c\<rparr>) i e)"
  "GotWelcome s \<Longrightarrow> post_ok s (abortSASL s i e)"
  by (simp_all add: abortSASL_def post_ok_def Let_def end_sasl_def)

lemma post_sendAuthenticate [post]: "post_ok s (sendAuthenticate (s\<lparr>scramConv := c\<rparr>) i b64)"
  "post_ok s (sendAuthenticate s i b64)"
  by (simp_all add: sendAuthenticate_def post_ok_def)

lemma post_stepSCRAM [post]: "GotWelcome s \<Longrightarrow> post_ok s (stepSCRAM sc s i p)"
  by (simp add: stepSCRAM_def Let_def post split: option.split sum.split prod.split)

lemma post_end_sasl [post]: "post_ok s (end_sasl s, [])"
  by (simp add: post_ok_def end_sasl_def)

lemma post_stepAuthenticate [post]: "GotWelcome s \<Longrightarrow> post_ok s (stepAuthenticate sc s i)"
  unfolding stepAuthenticate_def Let_def by (intro post_ok_if) (simp_all add: post)

lemma post_post_ACK [post]: "post_ok s (post_ACK s i)"
  unfolding post_ACK_def Let_def by (intro post_ok_if) (simp_all add: post_ok_def split: option.split)

lemma post_StepPost [post]: "GotWelcome s \<Longrightarrow> post_ok s (StepPost sc s i)"
  unfolding StepPost_def Let_def by (intro post_ok_if) (simp_all add: post, simp_all add: post_ok_def)

section \<open>The driver's dispatch\<close>

text \<open>
  The brain's driver gives a line to \<open>StepPost\<close> when the machine is complete and to \<open>Step\<close> otherwise
  (\<open>handleLine\<close>). The invariant is over the actions emitted so far and whether a 001 was seen.
\<close>

definition verdict_inv :: "bool \<Rightarrow> Action list \<Rightarrow> 'c regState \<Rightarrow> bool" where
  "verdict_inv welcomed as s \<longleftrightarrow>
     verdicts as = verdict_of s \<and> (phase s = PhaseComplete \<longrightarrow> GotWelcome s) \<and> (GotWelcome s \<longrightarrow> welcomed)"

lemma verdict_inv_drive:
  assumes "verdict_inv w as s"
  shows "verdict_inv (w \<or> Command (inMsg i) = ''001'') (as @ snd (drive sc s i)) (fst (drive sc s i))"
proof (cases "phase s = PhaseComplete")
  case True
  then show ?thesis
    using assms post_StepPost [of s sc i] by (simp add: drive_def verdict_inv_def post_ok_def verdict_of_def)
next
  case early: False
  show ?thesis
  proof (cases "terminal s")
    case True
    then show ?thesis using assms early by (simp add: drive_def Step_terminal verdict_inv_def)
  next
    case False
    then show ?thesis
      using assms early verdict_Step [of s sc i] welcome_Step [of i sc s]
      by (auto simp: drive_def verdict_inv_def verdict_ok_def)
  qed
qed

lemma verdict_inv_run:
  "verdict_inv w as s \<Longrightarrow>
   verdict_inv (w \<or> (\<exists>i\<in>set ins. Command (inMsg i) = ''001'')) (as @ snd (run (drive sc) s ins))
     (fst (run (drive sc) s ins))"
proof (induction ins arbitrary: w as s)
  case (Cons i ins)
  from Cons.IH [OF verdict_inv_drive [OF Cons.prems, of i sc]]
  show ?case by (simp add: split_beta disj_assoc)
qed simp

lemma verdict_inv_New: "verdict_inv False [] (reg_New primary alt recovery sasl)"
  by (simp add: verdict_inv_def reg_New_def verdict_of_def)

text \<open>
  C32. Whatever the server sends, before registration and after it, a connection emits no verdict before it is decided and exactly one
  after: success exactly when the machine ends complete, and then a 001 was received; failure, with
  the error the state keeps, exactly when it ends failed.
\<close>

theorem registration_one_verdict:
  assumes "run (drive sc) (reg_New primary alt recovery sasl) ins = (s, as)"
  shows "verdicts as = verdict_of s \<and> (phase s = PhaseComplete \<longrightarrow> (\<exists>i. i \<in> set ins \<and> Command (inMsg i) = ''001''))"
  using verdict_inv_run [OF verdict_inv_New, of ins sc primary alt recovery sasl] assms
  by (auto simp: verdict_inv_def)

theorem registration_one_verdict_witness:
  "let r = run (drive no_scram) (reg_New ''al'' [] False sasl_off)
             [server_line ''433'' [''*'', ''x''], server_line ''376'' [''al'']]
   in verdicts (snd r) = verdict_of (fst r) \<and> phase (fst r) = PhaseFailed"
proof -
  let ?ins = "[server_line ''433'' [''*'', ''x''], server_line ''376'' [''al'']]"
  let ?r = "run (drive no_scram) (reg_New ''al'' [] False sasl_off) ?ins"
  have "phase (fst ?r) = PhaseFailed"
    by (simp add: drive_def Step_def reg_New_def stepNickError_def nextLadderNick_def fail_def Let_def)
  then show ?thesis
    using registration_one_verdict [of no_scram "''al''" "[]" False sasl_off ?ins "fst ?r" "snd ?r"] by simp
qed

text \<open>
  C36. Once a connection is registered, no line the server sends ends the registration again: the
  machine stays complete, keeps its nick and reports nothing further, also when a later SASL
  exchange fails on a network that requires SASL.
\<close>

theorem registered_stays:
  assumes "phase s = PhaseComplete" "GotWelcome s" "run (drive sc) s ins = (s', as)"
  shows "phase s' = PhaseComplete \<and> GotWelcome s' \<and> verdicts as = [] \<and> regNick s' = regNick s"
  using assms
proof (induction ins arbitrary: s as)
  case (Cons i ins)
  let ?r = "drive sc s i"
  have "post_ok s ?r" using Cons.prems post_StepPost [of s sc i] by (simp add: drive_def)
  moreover obtain bs where "run (drive sc) (fst ?r) ins = (s', bs)" "as = snd ?r @ bs"
    using Cons.prems(3) by (cases "run (drive sc) (fst ?r) ins") (auto simp: split_beta)
  ultimately show ?case using Cons.IH [of "fst ?r" bs] Cons.prems by (simp add: post_ok_def)
qed simp

theorem registered_stays_witness:
  "let s = (reg_New ''al'' [] False (sasl_plain True ''u'' ''p''))\<lparr>phase := PhaseComplete, GotWelcome := True, saslMech := ''PLAIN''\<rparr>
   in phase (fst (run (drive no_scram) s [server_line ''904'' [''al'', ''failed'']])) = PhaseComplete"
proof -
  let ?s = "(reg_New ''al'' [] False (sasl_plain True ''u'' ''p'') :: unit regState)\<lparr>phase := PhaseComplete, GotWelcome := True, saslMech := ''PLAIN''\<rparr>"
  let ?ins = "[server_line ''904'' [''al'', ''failed'']]"
  show ?thesis
    using registered_stays [of ?s no_scram ?ins "fst (run (drive no_scram) ?s ?ins)" "snd (run (drive no_scram) ?s ?ins)"]
    by simp
qed

section \<open>Required authentication\<close>

text \<open>
  C37. On a network that requires SASL, a failure numeric (904, 905 or 906) before the welcome fails the
  registration and nothing is sent: no \<open>CAP END\<close> asks the server to register the connection
  unauthenticated.
\<close>

theorem required_sasl_refusal_fails:
  assumes "\<not> terminal s" "\<not> GotWelcome s" "Required (SASL s)"
    and "Command (inMsg i) \<in> set [''904'', ''905'', ''906'']"
  shows "phase (fst (drive sc s i)) = PhaseFailed \<and>
    verdicts (snd (drive sc s i)) = [(ActionFailed, Some (SASLOutcome (Command (inMsg i)) (Params (inMsg i))))] \<and>
    sent_lines (snd (drive sc s i)) = []"
proof -
  have "Step sc s i = stepSASLOutcome s i"
    using assms(1,4) by (simp add: Step_def terminal_def Let_def) (elim disjE; simp)
  moreover have "drive sc s i = Step sc s i" using assms(1) by (simp add: drive_def terminal_def)
  moreover have "Command (inMsg i) \<noteq> ''903''" "Command (inMsg i) \<noteq> ''907''" using assms(4) by auto
  ultimately show ?thesis using assms(2,3) by (simp add: stepSASLOutcome_def fail_def Let_def)
qed

theorem required_sasl_refusal_fails_witness:
  "phase (fst (drive no_scram (reg_New ''al'' [] False (sasl_plain True ''u'' ''p'')) (server_line ''904'' [''al'']))) =
     PhaseFailed"
  using required_sasl_refusal_fails [of "reg_New ''al'' [] False (sasl_plain True ''u'' ''p'')" "server_line ''904'' [''al'']" no_scram]
  by (simp add: reg_New_def terminal_def sasl_plain_def)

text \<open>
  A line that does not speak of SASL and refuses nothing: a server that does not offer \<open>sasl\<close> sends no other \<open>CAP\<close>
  lines, as \<open>sasl\<close> is acknowledged only when it was asked for.
\<close>

definition names_sasl :: "Input \<Rightarrow> bool" where
  "names_sasl i \<longleftrightarrow> (\<exists>tok \<in> set (Fields (Trailing (inMsg i))). cap_name tok = ''sasl'' \<or> fst (cut_byte (CHR ''='') tok) = ''sasl'')"

definition without_sasl :: "Input \<Rightarrow> bool" where
  "without_sasl i \<longleftrightarrow>
     Command (inMsg i) \<notin> set [''AUTHENTICATE'', ''903'', ''904'', ''905'', ''906'', ''907'', ''432'', ''433'', ''437'', ''ERROR''] \<and>
     (Command (inMsg i) = ''CAP'' \<longrightarrow> \<not> names_sasl i)"

definition negotiating :: "'c regState \<Rightarrow> bool" where
  "negotiating s \<longleftrightarrow> phase s \<in> {PhaseCAPNegotiation, PhaseAwaitingWelcome} \<and> saslMech s = [] \<and> map_of (Offered s) ''sasl'' = None"

definition quiet_lines :: "Action list \<Rightarrow> bool" where
  "quiet_lines as \<longleftrightarrow>
     (\<forall>l \<in> set (sent_lines as). l = ''CAP END'' \<or> (\<exists>req. l = ''CAP REQ :'' @ join '' '' req \<and> set req \<subseteq> set DesiredCaps - {''sasl''}))"

lemma quiet_lines_append: "quiet_lines (as @ bs) \<longleftrightarrow> quiet_lines as \<and> quiet_lines bs"
  by (simp add: quiet_lines_def ball_Un)

lemma offer_tokens_sasl:
  "(\<forall>tok \<in> set (Fields txtl). fst (cut_byte (CHR ''='') tok) \<noteq> ''sasl'') \<Longrightarrow>
   map_of (offer_tokens txtl m) ''sasl'' = map_of m ''sasl''"
proof -
  have "(\<forall>tok \<in> set toks. fst (cut_byte (CHR ''='') tok) \<noteq> ''sasl'') \<Longrightarrow>
    map_of (fold (\<lambda>tok m. case cut_byte (CHR ''='') tok of (name, val, _) \<Rightarrow> map_put name val m) toks m) ''sasl'' = map_of m ''sasl''" for toks
    by (induction toks arbitrary: m) (auto split: prod.split)
  then show "(\<forall>tok \<in> set (Fields txtl). fst (cut_byte (CHR ''='') tok) \<noteq> ''sasl'') \<Longrightarrow>
    map_of (offer_tokens txtl m) ''sasl'' = map_of m ''sasl''" by (simp add: offer_tokens_def)
qed

lemma stepCAP_without:
  assumes "negotiating s" and "\<not> names_sasl i"
  shows "negotiating (fst (stepCAP s i)) \<and> GotWelcome (fst (stepCAP s i)) = GotWelcome s \<and> quiet_lines (snd (stepCAP s i)) \<and>
    verdicts (snd (stepCAP s i)) = []"
proof -
  have offered: "map_of (offer_tokens (Trailing (inMsg i)) (Offered s)) ''sasl'' = None"
    using assms offer_tokens_sasl [of "Trailing (inMsg i)" "Offered s"] by (auto simp: negotiating_def names_sasl_def)
  have "\<not> list_ex (\<lambda>raw. cap_name raw = ''sasl'') (Fields (Trailing (inMsg i)))"
    using assms(2) by (auto simp: names_sasl_def list_ex_iff)
  moreover have "quiet_lines [send i ''CAP END'']" by (simp add: quiet_lines_def)
  moreover have "quiet_lines [send i (''CAP REQ :'' @ join '' '' (filter P DesiredCaps))]" if "\<not> P ''sasl''" for P
    using that unfolding quiet_lines_def sent_lines_simps by force
  ultimately show ?thesis
    using assms(1) offered
    by (auto simp: stepCAP_def Let_def cap_end_def negotiating_def quiet_lines_def [of "[]"])
qed

lemma Step_without:
  assumes "negotiating s" and "without_sasl i" and "Command (inMsg i) \<notin> {''376'', ''422''}"
  shows "negotiating (fst (Step sc s i)) \<and> quiet_lines (snd (Step sc s i)) \<and> verdicts (snd (Step sc s i)) = [] \<and>
    (GotWelcome (fst (Step sc s i)) \<longleftrightarrow> GotWelcome s \<or> Command (inMsg i) = ''001'')"
proof (cases "Command (inMsg i) = ''CAP''")
  case True
  then have "Step sc s i = stepCAP s i" using assms(1) by (auto simp: Step_def negotiating_def Let_def)
  then show ?thesis using stepCAP_without [OF assms(1), of i] assms(2) True by (simp add: without_sasl_def)
next
  case False
  then show ?thesis
    using assms by (auto simp: Step_def negotiating_def without_sasl_def quiet_lines_def Let_def)
qed

lemma run_without:
  assumes "negotiating s" and "list_all (\<lambda>i. without_sasl i \<and> Command (inMsg i) \<notin> {''376'', ''422''}) ins"
  shows "negotiating (fst (run (drive sc) s ins)) \<and> quiet_lines (snd (run (drive sc) s ins)) \<and>
    verdicts (snd (run (drive sc) s ins)) = [] \<and>
    (GotWelcome (fst (run (drive sc) s ins)) \<longleftrightarrow> GotWelcome s \<or> (\<exists>i \<in> set ins. Command (inMsg i) = ''001''))"
  using assms
proof (induction ins arbitrary: s)
  case (Cons i ins)
  have d: "drive sc s i = Step sc s i" using Cons.prems(1) by (auto simp: drive_def negotiating_def)
  obtain s1 as1 where 1: "Step sc s i = (s1, as1)" by fastforce
  obtain s2 as2 where 2: "run (drive sc) s1 ins = (s2, as2)" by fastforce
  from Step_without [OF Cons.prems(1), of i sc] Cons.prems(2) 1
  have S: "negotiating s1" "quiet_lines as1" "verdicts as1 = []"
    "GotWelcome s1 \<longleftrightarrow> GotWelcome s \<or> Command (inMsg i) = ''001''" by simp_all
  from Cons.IH [OF S(1)] Cons.prems(2) 2
  have "negotiating s2" "quiet_lines as2" "verdicts as2 = []"
    "GotWelcome s2 \<longleftrightarrow> GotWelcome s1 \<or> (\<exists>j \<in> set ins. Command (inMsg j) = ''001'')" by simp_all
  moreover have "run (drive sc) s (i # ins) = (s2, as1 @ as2)" using d 1 2 by simp
  ultimately show ?case using S quiet_lines_append [of as1 as2] by simp
qed (simp add: quiet_lines_def)

text \<open>
  C38. The requirement is not enforced when the server does not offer \<open>sasl\<close>: whatever the configuration demands, after
  any lines of a server that never names \<open>sasl\<close> in a \<open>CAP\<close> line and refuses neither the nick nor the connection, with a
  welcome among them, the end of the MOTD registers the connection. On the way the machine sends requests for other
  capabilities and the end of the negotiation, and nothing else.
\<close>

theorem required_sasl_not_offered_registers:
  assumes "list_all (\<lambda>i. without_sasl i \<and> Command (inMsg i) \<notin> {''376'', ''422''}) ins"
    and "\<exists>i \<in> set ins. Command (inMsg i) = ''001''" and "Command (inMsg last_line) \<in> {''376'', ''422''}"
    and "run (drive sc) (reg_New primary alt recovery sasl) (ins @ [last_line]) = (s, as)"
  shows "phase s = PhaseComplete \<and> verdicts as = [(ActionRegistered, None)] \<and>
    (\<forall>l \<in> set (sent_lines as). l = ''CAP END'' \<or>
       (\<exists>req. l = ''CAP REQ :'' @ join '' '' req \<and> set req \<subseteq> set DesiredCaps - {''sasl''}))"
proof -
  let ?s0 = "reg_New primary alt recovery sasl :: 'a regState"
  obtain s1 as1 where 1: "run (drive sc) ?s0 ins = (s1, as1)" by fastforce
  have "negotiating ?s0" by (simp add: negotiating_def reg_New_def)
  from run_without [OF this assms(1), of sc] have R: "negotiating s1" "quiet_lines as1" "verdicts as1 = []" "GotWelcome s1"
    using assms(2) 1 by auto
  then have "drive sc s1 last_line = (s1\<lparr>phase := PhaseComplete\<rparr>, [registered last_line])"
    using assms(3) by (auto simp: drive_def Step_def negotiating_def Let_def)
  then have "s = s1\<lparr>phase := PhaseComplete\<rparr>" "as = as1 @ [registered last_line]"
    using assms(4) 1 by (simp_all add: run_append)
  moreover have "sent_lines [registered last_line] = []" by (simp add: sent_lines_def registered_def)
  ultimately show ?thesis using R(2,3) by (simp add: quiet_lines_def)
qed

theorem required_sasl_not_offered_registers_witness:
  "let r = run (drive no_scram) (reg_New ''al'' [] False (sasl_plain True ''u'' ''p''))
             [server_line ''CAP'' [''*'', ''LS'', ''multi-prefix batch''], server_line ''CAP'' [''*'', ''ACK'', ''batch''],
              server_line ''001'' [''al'', ''Welcome''], server_line ''422'' [''al'', ''No MOTD'']]
   in phase (fst r) = PhaseComplete \<and> verdicts (snd r) = [(ActionRegistered, None)] \<and>
      sent_lines (snd r) = [''CAP REQ :batch'', ''CAP END'']"
proof -
  let ?ins = "[server_line ''CAP'' [''*'', ''LS'', ''multi-prefix batch''], server_line ''CAP'' [''*'', ''ACK'', ''batch''],
    server_line ''001'' [''al'', ''Welcome'']]"
  let ?motd = "server_line ''422'' [''al'', ''No MOTD'']"
  let ?s = "reg_New ''al'' [] False (sasl_plain True ''u'' ''p'') :: unit regState"
  let ?r = "run (drive no_scram) ?s (?ins @ [?motd])"
  have "list_all (\<lambda>i. without_sasl i \<and> Command (inMsg i) \<notin> {''376'', ''422''}) ?ins" by code_simp
  moreover have "\<exists>i \<in> set ?ins. Command (inMsg i) = ''001''" "Command (inMsg ?motd) \<in> {''376'', ''422''}"
    by (simp_all add: server_line_def)
  ultimately have "phase (fst ?r) = PhaseComplete \<and> verdicts (snd ?r) = [(ActionRegistered, None)]"
    using required_sasl_not_offered_registers [OF _ _ _ prod.collapse [symmetric]] by blast
  moreover have "sent_lines (snd ?r) = [''CAP REQ :batch'', ''CAP END'']" by code_simp
  ultimately show ?thesis unfolding Let_def append_Cons append_Nil by blast
qed

end
