(* ===== verification/Spec2Isabelle.thy ===== *)
theory Spec2Isabelle
  imports IRC_Message IRC_Casemap IRC_Modes IRC_Isupport Connio Flood_Pacers Keeper_Ring Keeper_Blob Keeper_Core Keeper_Protocol Tracker_Ops Registration_Props
begin

text \<open>
  Verification of GoBNC, an IRC bouncer written in Go.

  \<^bold>\<open>The program.\<close> GoBNC is two processes. The keeper (\<open>src/internal/keeper\<close>) owns the sockets to the IRC servers: it
  numbers and buffers every line of an uplink, keeps derived state for the other process, and survives its restarts.
  The brain is everything else. For every network it dials through the keeper, registers
  (\<open>src/internal/registration\<close>), paces the lines it sends (\<open>src/internal/flood\<close>), and runs a session
  (\<open>src/internal/session\<close>) that routes the replies of the server to the clients that asked. A line of an uplink goes
  keeper, driver, session, clients; a line of a client goes session, driver, keeper.

  \<^bold>\<open>The theories\<close>, by the code they model.

  \<^item> \<open>Go_Prelude\<close>, \<open>Base64\<close>: what the code calls of Go's standard library (strings as byte lists, maps as association lists,
    \<open>encoding/base64\<close>), the collections of simplification rules, and the locale \<open>machine\<close> of a step function with an
    invariant, which the state machines below interpret.
  \<^item> \<open>IRC_Message\<close> (\<open>irc/message.go\<close>, \<open>irc/limits.go\<close>): \<open>Parse\<close>, \<open>Encode\<close>, \<open>Wire\<close>, tag escapes. Parsing inverts encoding on
    well-formed messages, tags can be added to a raw line without changing its body, no encoding holds a line break.
  \<^item> \<open>IRC_Casemap\<close> (\<open>irc/casemap.go\<close>): \<open>Fold\<close>, \<open>Equal\<close>, \<open>Canonical\<close>; the mappings equate the pairs they name and no others.
  \<^item> \<open>IRC_Modes\<close> (\<open>irc/modes.go\<close>): \<open>ParseModeParams\<close>, \<open>Apply\<close>, \<open>ModeString\<close> and the modes of users. Memberships refine a set
    of pairs; mode strings are read back.
  \<^item> \<open>IRC_Isupport\<close>, \<open>IRC_Ircd\<close> (\<open>irc/isupport.go\<close>, \<open>irc/ircd.go\<close>): the tokens of the 005 lines and the burst that is made from
    them, the server families.
  \<^item> \<open>Connio\<close> (\<open>connio/conn.go\<close>): lines on a byte stream, with the limit on their length.
  \<^item> \<open>Flood_Pacers\<close> (\<open>flood/bucket.go\<close>, \<open>flood/line.go\<close>): one pass of \<open>Take\<close> under the lock (\<open>bucket_attempt\<close>, \<open>line_attempt\<close>) and
    the loop around it, which sleeps. The bounds on bytes and on the clock of the server, and the end of the loop.
  \<^item> \<open>Keeper_Ring\<close> (\<open>keeper/ring.go\<close>): the circular buffer with 64-bit numbers; a refinement of a bounded list, and what \<open>since\<close>
    answers. \<open>Keeper_Blob\<close> (\<open>keeper/blob.go\<close>): the derived state as the resolution of all that was pushed.
  \<^item> \<open>Keeper_Core\<close> (\<open>keeper/keeper.go\<close>): a definition for every critical section of \<open>Dial\<close>, \<open>Close\<close> and the read loop, and the
    relation \<open>keeper_step\<close> that interleaves them. Invariants of the slot (\<open>slot_ok\<close>, \<open>taken_ok\<close>), of the events (\<open>events_ok\<close>) and
    of the numbering of the lines read (\<open>log_ok\<close>), each by rule induction over the reachable states.
  \<^item> \<open>Keeper_Protocol\<close> (\<open>keeper/protocol.go\<close>, \<open>negotiateVersion\<close> of \<open>listener.go\<close>): frames and versions.
  \<^item> \<open>Tracker_Codes\<close>, \<open>Session_Tracker\<close> (\<open>session/tracker.go\<close>): the numerics of each command, and the request tracker with all its
    operations. \<open>Tracker_Props\<close>: predicates that routing and expiry keep (locale \<open>request_pred\<close>) and the discipline of the
    queues. \<open>Tracker_Release\<close>: an account of the lines that wait in the queues. \<open>Tracker_Ops\<close>: the tracker under any
    sequence of operations, and the properties.
  \<^item> \<open>Registration\<close>, \<open>Registration_Props\<close> (\<open>registration/*.go\<close>, the dispatch of \<open>brain/driver.go\<close>): negotiation of capabilities,
    SASL, the ladder of nicks. One verdict for each connection, no repeated nick, replay against live, what the
    requirement of SASL enforces and what it does not.

  \<^bold>\<open>How the components meet.\<close> A contract that several operations share is a locale, interpreted on the code's model in the
  theory of the provider: \<open>byte_folding\<close> and \<open>nick_folding\<close> of the case mappings, \<open>line_log\<close> of the ring and \<open>blob_interface\<close> of the blob store, which the
  keeper's proofs use; \<open>pacer\<close> of the two pacers; \<open>machine\<close> of the step functions; \<open>request_pred\<close> of the tracker. The keeper
  parses PING with \<open>IRC_Message\<close>; registration and tracker compare names with \<open>IRC_Casemap\<close>.

  \<^bold>\<open>Conventions.\<close> A struct is a record with its fields, an enumeration a datatype, a Go map an association list without
  double keys, whose order stands for the order of a range over the map; an error is a value of a sum type or an option.
  A Go string is a list of bytes. \<open>ToUpper\<close>, \<open>ToLower\<close> and \<open>EqualFold\<close> are those of ASCII bytes. Counters that can wrap are words of
  their width; sizes and times are integers, times in nanoseconds, and a \<open>float64\<close> that becomes a \<open>Duration\<close> is
  cut to 64 bits (\<open>to_Duration\<close>). Floating-point values of the pacers are rationals. A method that holds its lock
  throughout is one function; one with several critical sections is one function for each. A method reads the clock
  once: in the tracker, the time of the request and of the expiry are the same argument. A pacer has one caller at a
  time. What is not code under \<open>src\<close> is a parameter: the network of the keeper, and SCRAM (the record \<open>scram\<close>, to which
  every message of the input hands the nonce that a conversation begun there would draw).

  \<^bold>\<open>Bounds and termination.\<close> The definitions are total and executable: loops are recursion over the data or over a measure.
  Fuel is used for the passes of the pacers' \<open>Take\<close> (three, shown to be enough) and for the climb of the nick ladder
  (its length, shown to be enough). Sizes of buffers, rungs and lines are the code's constants. The theorem on \<open>Since\<close>
  holds while the 64-bit counter of lines has not wrapped.

  \<^bold>\<open>What is not modelled.\<close> The session around the request tracker, the driver around the registration machine, the listener
  of the keeper, the clients' listener, the database, the server, administration and configuration; deadlines, TLS and
  sockets, logging, and the JSON of the frames' bodies. The manifest lists each such part.

  \<^bold>\<open>Reading order.\<close> The theorems that state the behaviour of the program are marked by a claim id in the text before
  them. Most state what holds; \<open>close_clears_next_epoch_blob\<close>, \<open>dropped_list_misroutes\<close> and
  \<open>required_sasl_not_offered_registers\<close> state where the code departs from its own comments, and so do the lemmas
  \<open>tiny_rate_polls\<close>, \<open>unknown_mode_takes_argument\<close> and \<open>replayed_scram_differs\<close>.
\<close>

end
